theory Spec2Isabelle
  imports Main
begin

section \<open>Strings as the deploy engine uses them\<close>

text \<open>
  The engine is TypeScript. A string is modelled as a list of characters; the model covers
  ASCII text (recipes, runtime output, identifiers), so \<open>trim\<close>, \<open>\s\<close> and
  \<open>toUpperCase\<close> are the ASCII parts of the JavaScript operations.
\<close>

definition is_space :: "char \<Rightarrow> bool" where
  "is_space c = (c \<in> set [CHR '' '', CHR 0x09, CHR 0x0A, CHR 0x0B, CHR 0x0C, CHR 0x0D])"

definition is_digit :: "char \<Rightarrow> bool" where
  "is_digit c = (c \<in> set ''0123456789'')"

definition upper_char :: "char \<Rightarrow> char" where
  "upper_char c =
     (case map_of (zip ''abcdefghijklmnopqrstuvwxyz'' ''ABCDEFGHIJKLMNOPQRSTUVWXYZ'') c of
        Some u \<Rightarrow> u
      | None \<Rightarrow> c)"

definition toUpperCase :: "string \<Rightarrow> string" where
  "toUpperCase s = map upper_char s"

text \<open>\<open>s.trim()\<close>: whitespace removed at both ends.\<close>

fun trim_end :: "string \<Rightarrow> string" where
  "trim_end [] = []"
| "trim_end (c # cs) = (let r = trim_end cs in if r = [] \<and> is_space c then [] else c # r)"

definition trim :: "string \<Rightarrow> string" where
  "trim s = trim_end (dropWhile is_space s)"

text \<open>\<open>s.startsWith(p)\<close> and \<open>s.includes(p)\<close>; the pattern comes first.\<close>

fun startsWith :: "string \<Rightarrow> string \<Rightarrow> bool" where
  "startsWith [] s = True"
| "startsWith (p # ps) [] = False"
| "startsWith (p # ps) (c # cs) = (p = c \<and> startsWith ps cs)"

fun includes_str :: "string \<Rightarrow> string \<Rightarrow> bool" where
  "includes_str p [] = (p = [])"
| "includes_str p (c # cs) = (startsWith p (c # cs) \<or> includes_str p cs)"

text \<open>\<open>s.split(d)\<close> for a one-character separator, and \<open>xs.join(sep)\<close>.\<close>

fun split_on :: "char \<Rightarrow> string \<Rightarrow> string list" where
  "split_on d [] = [[]]"
| "split_on d (c # cs) =
     (if c = d then [] # split_on d cs
      else (case split_on d cs of x # xs \<Rightarrow> (c # x) # xs | [] \<Rightarrow> [[c]]))"

fun join_with :: "string \<Rightarrow> string list \<Rightarrow> string" where
  "join_with sep [] = []"
| "join_with sep [x] = x"
| "join_with sep (x # y # ys) = x @ sep @ join_with sep (y # ys)"

text \<open>
  \<open>s.split(/\s+/)\<close>: the pieces between maximal runs of whitespace; a run at the start or
  at the end leaves an empty piece there. The accumulator holds the current piece reversed,
  the flag says that the previous character belonged to a separator run.
\<close>

fun split_ws_from :: "string \<Rightarrow> bool \<Rightarrow> string \<Rightarrow> string list" where
  "split_ws_from cur sep [] = [rev cur]"
| "split_ws_from cur sep (c # cs) =
     (if is_space c then (if sep then split_ws_from [] True cs else rev cur # split_ws_from [] True cs)
      else split_ws_from (c # cur) False cs)"

definition split_ws :: "string \<Rightarrow> string list" where
  "split_ws s = split_ws_from [] False s"

text \<open>Template interpolation of a port number: its decimal digits.\<close>

fun show_nat :: "nat \<Rightarrow> string" where
  "show_nat n = (if n < 10 then [''0123456789'' ! n] else show_nat (n div 10) @ [''0123456789'' ! (n mod 10)])"

declare show_nat.simps [simp del]

section \<open>Naming conventions (types.ts)\<close>

text \<open>\<open>id.slice(0, 8)\<close> is \<open>take 8 id\<close>: the whole identifier when it is shorter.\<close>

definition getContainerName :: "string \<Rightarrow> string" where
  "getContainerName projectId = ''thakur-'' @ take 8 projectId"

definition getImageName :: "string \<Rightarrow> string \<Rightarrow> string" where
  "getImageName projectId buildId = ''thakur-deploy/'' @ take 8 projectId @ '':'' @ take 8 buildId"

section \<open>Recipe sanitization (image-builder.ts)\<close>

text \<open>
  The regular expression \<open>/PORT\s*=?\s*\d+/i\<close> tried at the head of a string: the letters
  PORT in any case, whitespace, an optional equals sign, whitespace, one or more digits.
  The three classes are disjoint, so the greedy reading is the only one that can match, and
  the match is as long as the digits go. The result is what follows the match.
\<close>

definition match_port :: "string \<Rightarrow> string option" where
  "match_port s =
     (if toUpperCase (take 4 s) = ''PORT'' then
        (let r1 = dropWhile is_space (drop 4 s);
             r2 = (case r1 of [] \<Rightarrow> r1 | c # cs \<Rightarrow> if c = CHR ''='' then cs else r1);
             r3 = dropWhile is_space r2
         in (case r3 of
               [] \<Rightarrow> None
             | c # cs \<Rightarrow> if is_digit c then Some (dropWhile is_digit r3) else None))
      else None)"

text \<open>
  \<open>line.replace(/PORT\s*=?\s*\d+/i, `PORT=${internalPort}`)\<close>: the leftmost match is
  replaced, a line with no match is returned as it is.
\<close>

fun replace_port :: "nat \<Rightarrow> string \<Rightarrow> string" where
  "replace_port internalPort [] = []"
| "replace_port internalPort (c # cs) =
     (case match_port (c # cs) of
        Some rest \<Rightarrow> ''PORT='' @ show_nat internalPort @ rest
      | None \<Rightarrow> c # replace_port internalPort cs)"

text \<open>The tests of the callback of \<open>lines.map\<close>, each on \<open>line.trim().toUpperCase()\<close>.\<close>

definition is_expose :: "string \<Rightarrow> bool" where
  "is_expose line = startsWith ''EXPOSE '' (toUpperCase (trim line))"

definition is_port_env :: "string \<Rightarrow> bool" where
  "is_port_env line =
     (let trimmedLine = toUpperCase (trim line)
      in startsWith ''ENV '' trimmedLine \<and> includes_str ''PORT'' trimmedLine)"

definition is_dangerous :: "string \<Rightarrow> bool" where
  "is_dangerous line =
     (let trimmedLine = toUpperCase (trim line)
      in startsWith ''USER ROOT'' trimmedLine \<or> includes_str ''--PRIVILEGED'' trimmedLine
         \<or> includes_str ''DOCKER.SOCK'' trimmedLine)"

definition sanitizeLine :: "nat \<Rightarrow> string \<Rightarrow> string" where
  "sanitizeLine internalPort line =
     (if is_expose line then ''EXPOSE '' @ show_nat internalPort
      else if is_port_env line then replace_port internalPort line
      else if is_dangerous line then ''# REMOVED FOR SECURITY: '' @ line
      else line)"

text \<open>The two flags the callback sets: an EXPOSE line was seen, an ENV PORT line was seen.\<close>

definition hasExpose :: "string list \<Rightarrow> bool" where
  "hasExpose lines = list_ex is_expose lines"

definition hasPortEnv :: "string list \<Rightarrow> bool" where
  "hasPortEnv lines = list_ex (\<lambda>line. \<not> is_expose line \<and> is_port_env line) lines"

definition is_cmd :: "string \<Rightarrow> bool" where
  "is_cmd l = (startsWith ''CMD'' (toUpperCase (trim l)) \<or> startsWith ''ENTRYPOINT'' (toUpperCase (trim l)))"

text \<open>\<open>lines.findIndex(pred)\<close>, with \<open>None\<close> for -1.\<close>

fun findIndex :: "('a \<Rightarrow> bool) \<Rightarrow> 'a list \<Rightarrow> nat option" where
  "findIndex P [] = None"
| "findIndex P (x # xs) = (if P x then Some 0 else map_option Suc (findIndex P xs))"

text \<open>
  Lines 103 to 111: \<open>findIndex\<close> of the first CMD or ENTRYPOINT line, then
  \<open>splice(cmdIndex, 0, y)\<close>, or \<open>push(y)\<close> when there is none.
\<close>

definition insert_before_cmd :: "string \<Rightarrow> string list \<Rightarrow> string list" where
  "insert_before_cmd y xs =
     (case findIndex is_cmd xs of
        Some cmdIndex \<Rightarrow> take cmdIndex xs @ [y] @ drop cmdIndex xs
      | None \<Rightarrow> xs @ [y])"

text \<open>The lines of the sanitized recipe, before \<open>lines.join('\n')\<close>.\<close>

definition sanitizedLines :: "string \<Rightarrow> nat \<Rightarrow> string list" where
  "sanitizedLines content internalPort =
     (let lines0 = split_on CHR 0x0A content;
          lines1 = map (sanitizeLine internalPort) lines0;
          lines2 = (if \<not> hasExpose lines0 then lines1 @ [''EXPOSE '' @ show_nat internalPort]
                    else lines1);
          lines3 = (if \<not> hasPortEnv lines0 then
                      insert_before_cmd (''ENV PORT='' @ show_nat internalPort) lines2
                    else lines2)
      in lines3)"

definition sanitizeDockerfile :: "string \<Rightarrow> nat \<Rightarrow> string" where
  "sanitizeDockerfile content internalPort = join_with [CHR 0x0A] (sanitizedLines content internalPort)"

section \<open>Parsing the listing of managed containers (container.ts)\<close>

record ExecResult =
  exitCode :: int
  stdout :: string
  stderr :: string

text \<open>
  An entry of the list \<open>listRunningContainers\<close> returns:
  \<open>{ containerName, projectId, buildId }\<close>.
\<close>

record ManagedContainer =
  c_containerName :: string
  c_projectId :: string
  c_buildId :: string

text \<open>
  The callback of \<open>map\<close> in \<open>listRunningContainers\<close>: \<open>null\<close> for a line with fewer
  than three pieces, else the first three.
\<close>

definition parse_container_line :: "string \<Rightarrow> ManagedContainer option" where
  "parse_container_line line =
     (case split_ws line of
        n # p # b # others \<Rightarrow> Some \<lparr>c_containerName = n, c_projectId = p, c_buildId = b\<rparr>
      | _ \<Rightarrow> None)"

text \<open>
  What \<open>listRunningContainers\<close> returns for a result of the runtime's listing command.
  \<open>filter(Boolean)\<close> keeps the non-empty lines; the last filter keeps the entries that
  are not \<open>null\<close> and whose two labels are non-empty strings.
\<close>

definition parse_listing :: "ExecResult \<Rightarrow> ManagedContainer list" where
  "parse_listing result =
     (if exitCode result \<noteq> 0 then []
      else List.map_filter
             (\<lambda>line. case parse_container_line line of
                        None \<Rightarrow> None
                      | Some c \<Rightarrow> if c_projectId c \<noteq> [] \<and> c_buildId c \<noteq> [] then Some c else None)
             (filter (\<lambda>line. line \<noteq> []) (split_on CHR 0x0A (stdout result))))"

section \<open>The world the engine acts on\<close>

text \<open>
  Everything outside the engine is explicit. The state \<open>world\<close> holds the file system, the
  registry of log streams (\<open>DockerService._logStreamers\<close>), the stream processes killed so
  far, the clock, and the sequence of effects issued so far; a change of the registry is an
  effect too (\<open>Register\<close> for \<open>set\<close>, \<open>Unregister\<close> for \<open>delete\<close>). What the outside
  answers is a parameter, the record \<open>environment\<close>: what a runtime process writes and how
  it ends, the response to an HTTP request, whether a file operation or the log sink faults.
  Each answer may depend on the effects issued before it.
\<close>

datatype severity = Info | Warning | Error | Success

datatype fs_node = File string | Dir

datatype http_result = Response nat | Unreachable

datatype event =
    Docker "string list"
  | LogStream string string severity
  | WriteFile string string
  | Unlink string
  | Spawn nat "string list"
  | Kill nat
  | Register string nat
  | Unregister string
  | Fetch nat nat

record world =
  trace :: "event list"
  fs :: "string \<Rightarrow> fs_node option"
  logStreamers :: "string \<Rightarrow> nat option"
  nextPid :: nat
  killed :: "nat set"
  now :: nat

text \<open>
  A child process delivers its output in pieces (the \<open>data\<close> events of its two pipes) and
  ends with the event \<open>close\<close> and an exit code, \<open>null\<close> for a process ended by a signal,
  or with the event \<open>error\<close> and a message. Every process the model starts ends.
\<close>

datatype chunk = Stdout string | Stderr string

datatype proc_end = Closed "int option" | SpawnError string

text \<open>
  A request that stays pending for ever is the answer \<open>None\<close> of \<open>httpGet\<close>; otherwise
  the answer is the result and the time the request took. \<open>dateTime\<close> is
  \<open>new Date(s).getTime()\<close>, with \<open>None\<close> for \<open>NaN\<close>. \<open>engineSort\<close> is what the
  engine's \<open>sort\<close> returns for the image entries when the comparator is not a consistent
  order, the case the language leaves to the implementation.
\<close>

record StreamResult =
  streamExitCode :: int
  streamError :: "string option"

record ImageEntry =
  img_name :: string
  img_date :: string

record environment =
  process :: "event list \<Rightarrow> string list \<Rightarrow> chunk list \<times> proc_end"
  sinkFault :: "event list \<Rightarrow> string \<Rightarrow> string \<Rightarrow> severity \<Rightarrow> string option"
  writeFault :: "event list \<Rightarrow> string \<Rightarrow> string option"
  unlinkFault :: "event list \<Rightarrow> string \<Rightarrow> bool"
  packageHasStart :: "string \<Rightarrow> bool"
  httpGet :: "nat \<Rightarrow> nat \<Rightarrow> (http_result \<times> nat) option"
  dateTime :: "string \<Rightarrow> int option"
  engineSort :: "ImageEntry list \<Rightarrow> ImageEntry list"

text \<open>
  A step that may throw returns \<open>Inl message\<close> or \<open>Inr result\<close> with the new world;
  \<open>andThen\<close> is \<open>await\<close> followed by the rest of the function: a fault skips the rest.
\<close>

type_synonym 'a io = "world \<Rightarrow> (string + 'a) \<times> world"

definition ret :: "'a \<Rightarrow> 'a io" where
  "ret a w = (Inr a, w)"

definition andThen :: "'a io \<Rightarrow> ('a \<Rightarrow> 'b io) \<Rightarrow> 'b io" where
  "andThen m f w = (case m w of (Inl e, w') \<Rightarrow> (Inl e, w') | (Inr a, w') \<Rightarrow> f a w')"

definition lift :: "(world \<Rightarrow> 'a \<times> world) \<Rightarrow> 'a io" where
  "lift m w = (case m w of (a, w') \<Rightarrow> (Inr a, w'))"

definition emit :: "event \<Rightarrow> world \<Rightarrow> world" where
  "emit e w = w\<lparr>trace := trace w @ [e]\<rparr>"

subsection \<open>Runtime bridge (exec.ts)\<close>

text \<open>\<open>code ?? 1\<close>.\<close>

definition exit_code :: "int option \<Rightarrow> int" where
  "exit_code code = (case code of Some c \<Rightarrow> c | None \<Rightarrow> 1)"

text \<open>The two accumulators of \<open>execDocker\<close>: \<open>stdout += data.toString()\<close> and the same for \<open>stderr\<close>.\<close>

definition stdout_text :: "chunk list \<Rightarrow> string" where
  "stdout_text chunks = concat (map (\<lambda>c. case c of Stdout t \<Rightarrow> t | Stderr t \<Rightarrow> []) chunks)"

definition stderr_text :: "chunk list \<Rightarrow> string" where
  "stderr_text chunks = concat (map (\<lambda>c. case c of Stderr t \<Rightarrow> t | Stdout t \<Rightarrow> []) chunks)"

text \<open>
  What the promise of \<open>execDocker\<close> resolves with: on \<open>close\<close> the two texts trimmed and
  the exit code, on \<open>error\<close> an empty output, the message and the exit code 1.
\<close>

definition execResult :: "environment \<Rightarrow> event list \<Rightarrow> string list \<Rightarrow> ExecResult" where
  "execResult env h args =
     (case process env h args of
        (chunks, Closed code) \<Rightarrow>
          \<lparr>exitCode = exit_code code, stdout = trim (stdout_text chunks),
           stderr = trim (stderr_text chunks)\<rparr>
      | (chunks, SpawnError message) \<Rightarrow> \<lparr>exitCode = 1, stdout = [], stderr = message\<rparr>)"

definition execDocker :: "environment \<Rightarrow> string list \<Rightarrow> world \<Rightarrow> ExecResult \<times> world" where
  "execDocker env args w = (execResult env (trace w) args, emit (Docker args) w)"

text \<open>
  \<open>execDockerWithStream\<close>: each piece of output is split at the line ends, the empty lines
  are dropped (\<open>filter(Boolean)\<close>) and the others go to the callback; \<open>lastError\<close> is the
  last piece of the error pipe. On \<open>close\<close> the result carries \<open>lastError\<close> when the code
  is not 0 (also when it is \<open>null\<close>), and no error otherwise; on \<open>error\<close> it carries
  the message and the exit code 1.
\<close>

definition chunk_lines :: "chunk \<Rightarrow> string list" where
  "chunk_lines c =
     filter (\<lambda>line. line \<noteq> [])
       (split_on CHR 0x0A (case c of Stdout t \<Rightarrow> t | Stderr t \<Rightarrow> t))"

definition lastError :: "chunk list \<Rightarrow> string" where
  "lastError chunks = fold (\<lambda>c acc. case c of Stderr t \<Rightarrow> t | Stdout t \<Rightarrow> acc) chunks []"

definition streamResult :: "environment \<Rightarrow> event list \<Rightarrow> string list \<Rightarrow> string list \<times> StreamResult" where
  "streamResult env h args =
     (case process env h args of
        (chunks, Closed code) \<Rightarrow>
          (concat (map chunk_lines chunks),
           \<lparr>streamExitCode = exit_code code,
            streamError = (if code \<noteq> Some 0 then Some (lastError chunks) else None)\<rparr>)
      | (chunks, SpawnError message) \<Rightarrow>
          (concat (map chunk_lines chunks),
           \<lparr>streamExitCode = 1, streamError = Some message\<rparr>))"

definition execDockerWithStream ::
  "environment \<Rightarrow> string list \<Rightarrow> (string \<Rightarrow> world \<Rightarrow> world) \<Rightarrow> world \<Rightarrow> StreamResult \<times> world" where
  "execDockerWithStream env args onOutput w =
     (case streamResult env (trace w) args of
        (lines, result) \<Rightarrow> (result, fold onOutput lines (emit (Docker args) w)))"

subsection \<open>Log sink\<close>

text \<open>
  Modelled from the spec: \<open>log-service.ts\<close> is not among the sources.
  \<open>LogService.stream(buildId, message, level)\<close> hands a line to the caller's sink; whether
  the returned promise rejects is the environment's.
\<close>

definition logStream :: "environment \<Rightarrow> string \<Rightarrow> string \<Rightarrow> severity \<Rightarrow> unit io" where
  "logStream env buildId message level w =
     (case sinkFault env (trace w) buildId message level of
        Some e \<Rightarrow> (Inl e, emit (LogStream buildId message level) w)
      | None \<Rightarrow> (Inr (), emit (LogStream buildId message level) w))"

text \<open>A call of the sink whose promise is not awaited: a rejection reaches nobody.\<close>

definition logStream_detached :: "environment \<Rightarrow> string \<Rightarrow> severity \<Rightarrow> string \<Rightarrow> world \<Rightarrow> world" where
  "logStream_detached env buildId level message w = emit (LogStream buildId message level) w"

subsection \<open>File system\<close>

text \<open>\<open>path.join(dir, name)\<close> for a directory path without a trailing separator.\<close>

definition join_path :: "string \<Rightarrow> string \<Rightarrow> string" where
  "join_path dir file = dir @ ''/'' @ file"

definition existsSync :: "world \<Rightarrow> string \<Rightarrow> bool" where
  "existsSync w path = (fs w path \<noteq> None)"

definition readFileSync :: "world \<Rightarrow> string \<Rightarrow> string + string" where
  "readFileSync w path =
     (case fs w path of
        Some (File content) \<Rightarrow> Inr content
      | Some Dir \<Rightarrow> Inl ''EISDIR: illegal operation on a directory, read''
      | None \<Rightarrow> Inl ''ENOENT: no such file or directory'')"

definition writeFile :: "environment \<Rightarrow> string \<Rightarrow> string \<Rightarrow> unit io" where
  "writeFile env path content w =
     (case writeFault env (trace w) path of
        Some e \<Rightarrow> (Inl e, w)
      | None \<Rightarrow>
          (if fs w path = Some Dir then (Inl ''EISDIR: illegal operation on a directory, open'', w)
           else (Inr (), emit (WriteFile path content) (w\<lparr>fs := (fs w)(path \<mapsto> File content)\<rparr>))))"

text \<open>\<open>await unlink(path).catch(() => {})\<close>: a failure is swallowed.\<close>

definition unlink_quiet :: "environment \<Rightarrow> string \<Rightarrow> world \<Rightarrow> world" where
  "unlink_quiet env path w =
     (if unlinkFault env (trace w) path \<or> fs w path = Some Dir \<or> fs w path = None
      then emit (Unlink path) w
      else emit (Unlink path) (w\<lparr>fs := (fs w)(path := None)\<rparr>))"

section \<open>Image builder (image-builder.ts)\<close>

datatype FrameworkType = Nextjs | Vite | Express | Hono | Elysia

definition ENTRY_PATTERNS :: "string list" where
  "ENTRY_PATTERNS =
     [''src/index.ts'', ''src/index.js'', ''src/server.ts'', ''src/server.js'',
      ''index.ts'', ''index.js'', ''server.ts'', ''server.js'']"

definition detectEntryFile :: "world \<Rightarrow> string \<Rightarrow> string option" where
  "detectEntryFile w sourceDir =
     List.find (\<lambda>pattern. existsSync w (join_path sourceDir pattern)) ENTRY_PATTERNS"

text \<open>
  \<open>hasStartScript\<close>: \<open>packageHasStart\<close> stands for \<open>JSON.parse\<close> followed by
  \<open>!!pkg.scripts?.start\<close>, false when the parse throws.
\<close>

definition hasStartScript :: "environment \<Rightarrow> world \<Rightarrow> string \<Rightarrow> bool" where
  "hasStartScript env w sourceDir =
     (let pkgPath = join_path sourceDir ''package.json''
      in if \<not> existsSync w pkgPath then False
         else (case readFileSync w pkgPath of
                 Inr content \<Rightarrow> packageHasStart env content
               | Inl e \<Rightarrow> False))"

definition bun_template :: "nat \<Rightarrow> string \<Rightarrow> string" where
  "bun_template internalPort cmd =
     join_with [CHR 0x0A]
       [''FROM oven/bun:1-alpine AS builder'',
        ''WORKDIR /app'',
        ''COPY package.json ./'',
        ''RUN bun install'',
        ''COPY . .'',
        [],
        ''FROM oven/bun:1-alpine'',
        ''WORKDIR /app'',
        ''COPY --from=builder /app .'',
        ''ENV NODE_ENV=production'',
        ''ENV PORT='' @ show_nat internalPort,
        ''EXPOSE '' @ show_nat internalPort,
        cmd]"

definition getDockerfileContent :: "FrameworkType \<Rightarrow> nat \<Rightarrow> string option \<Rightarrow> string" where
  \<open>getDockerfileContent framework internalPort entryFile =
     (let cmd = (case entryFile of
                   Some e \<Rightarrow> ''CMD ["bun", "run", "'' @ e @ ''"]''
                 | None \<Rightarrow> ''CMD ["bun", "run", "start"]'')
      in case framework of
           Vite \<Rightarrow>
             join_with [CHR 0x0A]
               [''FROM nginx:alpine'',
                ''COPY dist/ /usr/share/nginx/html'',
                ''EXPOSE 80'',
                ''CMD ["nginx", "-g", "daemon off;"]'']
         | Nextjs \<Rightarrow> bun_template internalPort cmd
         | _ \<Rightarrow> bun_template internalPort cmd)\<close>

text \<open>\<open>BuildResult\<close>: \<open>{ success, imageName, error? }\<close>.\<close>

record BuildResult =
  build_success :: bool
  build_imageName :: string
  build_error :: "string option"

definition callLog :: "(string \<Rightarrow> world \<Rightarrow> world) option \<Rightarrow> string \<Rightarrow> world \<Rightarrow> world" where
  "callLog onLog message w = (case onLog of None \<Rightarrow> w | Some f \<Rightarrow> f message w)"

definition frameworkName :: "FrameworkType \<Rightarrow> string" where
  "frameworkName framework =
     (case framework of Nextjs \<Rightarrow> ''nextjs'' | Vite \<Rightarrow> ''vite'' | Express \<Rightarrow> ''express''
      | Hono \<Rightarrow> ''hono'' | Elysia \<Rightarrow> ''elysia'')"

text \<open>
  Lines 195 to 223 of \<open>buildImage\<close>: the recipe is taken from the source directory and
  sanitized, or generated. The result is the local \<open>dockerfileGenerated\<close>.
\<close>

definition resolveDockerfile ::
  "environment \<Rightarrow> string \<Rightarrow> FrameworkType \<Rightarrow> nat \<Rightarrow> (string \<Rightarrow> world \<Rightarrow> world) option \<Rightarrow> bool io" where
  "resolveDockerfile env sourceDir framework internalPort onLog w =
     (let dockerfilePath = join_path sourceDir ''Dockerfile''
      in if existsSync w dockerfilePath then
           (case readFileSync w dockerfilePath of
              Inl e \<Rightarrow> (Inl e, w)
            | Inr originalContent \<Rightarrow>
                (let sanitizedContent = sanitizeDockerfile originalContent internalPort
                 in if originalContent \<noteq> sanitizedContent then
                      andThen (writeFile env dockerfilePath sanitizedContent)
                        (\<lambda>u w1. (Inr False,
                           callLog onLog ''Using existing Dockerfile (sanitized for security)'' w1)) w
                    else (Inr False, callLog onLog ''Using existing Dockerfile'' w)))
         else
           (let entryFile = (if \<not> hasStartScript env w sourceDir then detectEntryFile w sourceDir
                             else None);
                w0 = (if \<not> hasStartScript env w sourceDir then
                        (case entryFile of
                           Some e \<Rightarrow> callLog onLog (''Detected entry file: '' @ e) w
                         | None \<Rightarrow> callLog onLog ''Warning: No start script or entry file found'' w)
                      else w);
                content = getDockerfileContent framework internalPort entryFile
            in andThen (writeFile env dockerfilePath content)
                 (\<lambda>u w1. (Inr True,
                    callLog onLog (''Generated Dockerfile for '' @ frameworkName framework) w1)) w0))"

text \<open>
  Lines 225 to 246 of \<open>buildImage\<close>: the build is run with its output streamed to the
  callback, the recipe file is removed if it exists, and the result is made from the exit
  status.
\<close>

definition runBuild ::
  "environment \<Rightarrow> string \<Rightarrow> string \<Rightarrow> (string \<Rightarrow> world \<Rightarrow> world) option \<Rightarrow> world
     \<Rightarrow> (string + BuildResult) \<times> world" where
  "runBuild env imageName sourceDir onLog w1 =
     (let dockerfilePath = join_path sourceDir ''Dockerfile'';
          w2 = callLog onLog (''Building Docker image: '' @ imageName) w1
      in case execDockerWithStream env [''build'', ''-t'', imageName, sourceDir]
                (\<lambda>line. callLog onLog line) w2 of
           (result, w3) \<Rightarrow>
             (let w4 = (if existsSync w3 dockerfilePath then unlink_quiet env dockerfilePath w3
                        else w3)
              in if streamExitCode result \<noteq> 0 then
                   (Inr \<lparr>build_success = False, build_imageName = imageName,
                         build_error =
                           Some (case streamError result of
                                   None \<Rightarrow> ''Docker build failed''
                                 | Some e \<Rightarrow> if e = [] then ''Docker build failed'' else e)\<rparr>,
                    w4)
                 else
                   (Inr \<lparr>build_success = True, build_imageName = imageName,
                         build_error = None\<rparr>,
                    callLog onLog (''Image built successfully: '' @ imageName) w4)))"

definition buildImage ::
  "environment \<Rightarrow> string \<Rightarrow> string \<Rightarrow> string \<Rightarrow> FrameworkType \<Rightarrow> nat
     \<Rightarrow> (string \<Rightarrow> world \<Rightarrow> world) option \<Rightarrow> BuildResult io" where
  "buildImage env projectId buildId sourceDir framework internalPort onLog w =
     (let imageName = getImageName projectId buildId
      in if \<not> existsSync w sourceDir then
           (Inr \<lparr>build_success = False, build_imageName = imageName,
                 build_error = Some (''Source directory not found: '' @ sourceDir)\<rparr>, w)
         else
           andThen (resolveDockerfile env sourceDir framework internalPort onLog)
             (\<lambda>dockerfileGenerated. runBuild env imageName sourceDir onLog) w)"

definition removeImage :: "environment \<Rightarrow> string \<Rightarrow> world \<Rightarrow> bool \<times> world" where
  "removeImage env imageName w =
     (case execDocker env [''rmi'', ''-f'', imageName] w of
        (result, w') \<Rightarrow> (exitCode result = 0, w'))"

text \<open>An entry of the image listing is \<open>{ name, date }\<close>, the record \<open>ImageEntry\<close>.\<close>

definition parse_image_line :: "string \<Rightarrow> ImageEntry" where
  "parse_image_line line =
     (case split_on CHR '' '' line of
        n # dateParts \<Rightarrow> \<lparr>img_name = n, img_date = join_with '' '' dateParts\<rparr>
      | [] \<Rightarrow> \<lparr>img_name = [], img_date = []\<rparr>)"

text \<open>
  The comparator \<open>(a, b) => new Date(b.date).getTime() - new Date(a.date).getTime()\<close>;
  a difference with \<open>NaN\<close> is \<open>NaN\<close>, which \<open>sort\<close> reads as 0.
\<close>

definition compare_created :: "environment \<Rightarrow> ImageEntry \<Rightarrow> ImageEntry \<Rightarrow> int" where
  "compare_created env a b =
     (case (dateTime env (img_date b), dateTime env (img_date a)) of
        (Some tb, Some ta) \<Rightarrow> tb - ta
      | _ \<Rightarrow> 0)"

text \<open>
  \<open>Array.prototype.sort(compare)\<close> is stable. For a comparator that is a consistent order
  every stable sort returns the same list, computed here by insertion. This comparator is
  a consistent order on the entries unless some date is unreadable while two readable
  ones differ; then the order is the implementation's, \<open>engineSort\<close>.
\<close>

fun insert_by :: "('a \<Rightarrow> 'a \<Rightarrow> int) \<Rightarrow> 'a \<Rightarrow> 'a list \<Rightarrow> 'a list" where
  "insert_by cmp x [] = [x]"
| "insert_by cmp x (y # ys) = (if cmp x y \<le> 0 then x # y # ys else y # insert_by cmp x ys)"

definition sort_by :: "('a \<Rightarrow> 'a \<Rightarrow> int) \<Rightarrow> 'a list \<Rightarrow> 'a list" where
  "sort_by cmp xs = foldr (insert_by cmp) xs []"

definition consistent_dates :: "environment \<Rightarrow> ImageEntry list \<Rightarrow> bool" where
  "consistent_dates env xs =
     (let ts = map (\<lambda>x. dateTime env (img_date x)) xs
      in list_all (\<lambda>t. t \<noteq> None) ts \<or> length (remdups (filter (\<lambda>t. t \<noteq> None) ts)) \<le> 1)"

definition sortImages :: "environment \<Rightarrow> ImageEntry list \<Rightarrow> ImageEntry list" where
  "sortImages env xs =
     (if consistent_dates env xs then sort_by (compare_created env) xs else engineSort env xs)"

text \<open>
  The loop \<open>for (const img of toRemove) await removeImage(img.name)\<close>; the result of each
  removal is dropped.
\<close>

fun removeImages :: "environment \<Rightarrow> string list \<Rightarrow> world \<Rightarrow> world" where
  "removeImages env [] w = w"
| "removeImages env (n # ns) w = removeImages env ns (snd (removeImage env n w))"

text \<open>The argument vector of the listing command of \<open>pruneProjectImages\<close>.\<close>

definition imagesArgs :: "string \<Rightarrow> string list" where
  "imagesArgs projectId =
     (let prefix = ''thakur-deploy/'' @ take 8 projectId
      in [''images'', ''--format'', ''{{.Repository}}:{{.Tag}} {{.CreatedAt}}'',
          ''--filter'', ''reference='' @ prefix @ '':*''])"

text \<open>The entries read from the output of the listing, before they are sorted.\<close>

definition listedImages :: "ExecResult \<Rightarrow> ImageEntry list" where
  "listedImages result = map parse_image_line (split_on CHR 0x0A (stdout result))"

definition pruneProjectImages :: "environment \<Rightarrow> string \<Rightarrow> nat \<Rightarrow> world \<Rightarrow> world" where
  "pruneProjectImages env projectId keepCount w =
     (case execDocker env (imagesArgs projectId) w of
        (result, w1) \<Rightarrow>
          if exitCode result \<noteq> 0 \<or> stdout result = [] then w1
          else
            (let images = sortImages env (listedImages result);
                 toRemove = drop keepCount images
             in removeImages env (map img_name toRemove) w1))"

section \<open>Container lifecycle (container.ts)\<close>

text \<open>
  \<open>ContainerConfig\<close> and \<open>RunResult\<close> of \<open>types.ts\<close>. \<open>envVars\<close>, a
  \<open>Record<string, string>\<close>, is the list of its entries in the order of \<open>Object.entries\<close>.
\<close>

record ContainerConfig =
  cfg_projectId :: string
  cfg_buildId :: string
  cfg_imageName :: string
  cfg_containerName :: string
  cfg_hostPort :: nat
  cfg_internalPort :: nat
  cfg_envVars :: "(string \<times> string) list"
  cfg_memoryLimit :: string
  cfg_cpuLimit :: string
  cfg_workDir :: string

record RunResult =
  run_success :: bool
  run_containerId :: string
  run_error :: "string option"

definition DEFAULT_CONTAINER_LIMITS_memory :: string where
  "DEFAULT_CONTAINER_LIMITS_memory = ''512m''"

definition DEFAULT_CONTAINER_LIMITS_cpus :: string where
  "DEFAULT_CONTAINER_LIMITS_cpus = ''0.5''"

text \<open>The argument vector of \<open>docker run\<close> that \<open>runContainer\<close> builds.\<close>

definition runArgs :: "ContainerConfig \<Rightarrow> string list" where
  "runArgs config =
     (let envFlags = concat (map (\<lambda>(key, v). [''-e'', key @ ''='' @ v]) (cfg_envVars config));
          portFlag = (case map_of (cfg_envVars config) ''PORT'' of
                        None \<Rightarrow> [''-e'', ''PORT='' @ show_nat (cfg_internalPort config)]
                      | Some v \<Rightarrow> if v = [] then [''-e'', ''PORT='' @ show_nat (cfg_internalPort config)]
                                  else [])
      in [''run'', ''-d'', ''--name'', cfg_containerName config,
          ''-p'', show_nat (cfg_hostPort config) @ '':'' @ show_nat (cfg_internalPort config),
          ''--restart'', ''unless-stopped'',
          ''--memory'', cfg_memoryLimit config,
          ''--cpus'', cfg_cpuLimit config,
          ''--label'', ''thakur.projectId='' @ cfg_projectId config,
          ''--label'', ''thakur.buildId='' @ cfg_buildId config,
          ''-e'', ''NODE_ENV=production'']
         @ envFlags @ portFlag @ [cfg_imageName config])"

definition runContainer :: "environment \<Rightarrow> ContainerConfig \<Rightarrow> world \<Rightarrow> RunResult \<times> world" where
  "runContainer env config w =
     (case execDocker env (runArgs config) w of
        (result, w') \<Rightarrow>
          if exitCode result \<noteq> 0 then
            (\<lparr>run_success = False, run_containerId = [],
              run_error = Some (if stderr result = [] then ''Failed to start container''
                                else stderr result)\<rparr>, w')
          else (\<lparr>run_success = True, run_containerId = trim (stdout result), run_error = None\<rparr>, w'))"

definition stopContainer :: "environment \<Rightarrow> string \<Rightarrow> nat \<Rightarrow> world \<Rightarrow> bool \<times> world" where
  "stopContainer env containerName timeout w =
     (case execDocker env [''stop'', ''-t'', show_nat timeout, containerName] w of
        (result, w') \<Rightarrow> (exitCode result = 0, w'))"

definition removeContainer :: "environment \<Rightarrow> string \<Rightarrow> bool \<Rightarrow> world \<Rightarrow> bool \<times> world" where
  "removeContainer env containerName force w =
     (case execDocker env (if force then [''rm'', ''-f'', containerName] else [''rm'', containerName]) w of
        (result, w') \<Rightarrow> (exitCode result = 0, w'))"

definition stopAndRemoveContainer :: "environment \<Rightarrow> string \<Rightarrow> world \<Rightarrow> bool \<times> world" where
  "stopAndRemoveContainer env containerName w =
     (case stopContainer env containerName 10 w of
        (stopped, w') \<Rightarrow> removeContainer env containerName True w')"

definition containerExists :: "environment \<Rightarrow> string \<Rightarrow> world \<Rightarrow> bool \<times> world" where
  "containerExists env containerName w =
     (case execDocker env [''container'', ''inspect'', containerName] w of
        (result, w') \<Rightarrow> (exitCode result = 0, w'))"

definition getContainerLogs :: "environment \<Rightarrow> string \<Rightarrow> nat \<Rightarrow> world \<Rightarrow> string \<times> world" where
  "getContainerLogs env containerName tail w =
     (case execDocker env [''logs'', ''--tail'', show_nat tail, containerName] w of
        (result, w') \<Rightarrow> (stdout result @ stderr result, w'))"

text \<open>
  \<open>streamContainerLogs\<close> spawns a following log process and returns the function that
  kills it. The model returns the process: calling the function is \<open>cancelStream\<close> of it.
\<close>

definition streamContainerLogs :: "string \<Rightarrow> world \<Rightarrow> nat \<times> world" where
  "streamContainerLogs containerName w =
     (nextPid w,
      emit (Spawn (nextPid w) [''logs'', ''-f'', ''--tail'', ''0'', containerName])
        (w\<lparr>nextPid := Suc (nextPid w)\<rparr>))"

definition cancelStream :: "nat \<Rightarrow> world \<Rightarrow> world" where
  "cancelStream proc w = emit (Kill proc) (w\<lparr>killed := insert proc (killed w)\<rparr>)"

definition ensureContainerStopped :: "environment \<Rightarrow> string \<Rightarrow> world \<Rightarrow> unit \<times> world" where
  "ensureContainerStopped env projectId w =
     (let containerName = getContainerName projectId
      in case containerExists env containerName w of
           (found, w') \<Rightarrow>
             if found then ((), snd (stopAndRemoveContainer env containerName w')) else ((), w'))"

text \<open>The argument vector of the listing command of \<open>listRunningContainers\<close>.\<close>

definition listArgs :: "string list" where
  "listArgs =
     [''ps'', ''--format'',
      ''{{.Names}} {{.Label \"thakur.projectId\"}} {{.Label \"thakur.buildId\"}}'',
      ''--filter'', ''label=thakur.projectId'']"

definition listRunningContainers :: "environment \<Rightarrow> world \<Rightarrow> ManagedContainer list \<times> world" where
  "listRunningContainers env w =
     (case execDocker env listArgs w of
        (result, w') \<Rightarrow> (parse_listing result, w'))"

section \<open>Deployment orchestrator (index.ts)\<close>

definition DEFAULT_INTERNAL_PORT :: nat where
  "DEFAULT_INTERNAL_PORT = 3000"

definition VITE_INTERNAL_PORT :: nat where
  "VITE_INTERNAL_PORT = 80"

text \<open>Line 53 of \<open>deploy\<close>: the internal port of an application type.\<close>

definition internalPortOf :: "FrameworkType \<Rightarrow> nat" where
  "internalPortOf appType = (if appType = Vite then VITE_INTERNAL_PORT else DEFAULT_INTERNAL_PORT)"

text \<open>Lines 78 to 89 of \<open>deploy\<close>: the configuration handed to \<open>runContainer\<close>.\<close>

definition deployConfig ::
  "string \<Rightarrow> string \<Rightarrow> string \<Rightarrow> string \<Rightarrow> nat \<Rightarrow> FrameworkType \<Rightarrow> (string \<times> string) list
     \<Rightarrow> ContainerConfig" where
  "deployConfig projectId buildId imageName sourceDir hostPort appType envVars =
     \<lparr>cfg_projectId = projectId,
      cfg_buildId = buildId,
      cfg_imageName = imageName,
      cfg_containerName = getContainerName projectId,
      cfg_hostPort = hostPort,
      cfg_internalPort = internalPortOf appType,
      cfg_envVars = envVars,
      cfg_memoryLimit = DEFAULT_CONTAINER_LIMITS_memory,
      cfg_cpuLimit = DEFAULT_CONTAINER_LIMITS_cpus,
      cfg_workDir = sourceDir\<rparr>"

subsection \<open>Health check\<close>

text \<open>\<open>res.ok || res.status < 500\<close>; a rejected \<open>fetch\<close> is caught and counts as not ready.\<close>

definition healthy_response :: "http_result \<Rightarrow> bool" where
  "healthy_response r =
     (case r of
        Response status \<Rightarrow> (200 \<le> status \<and> status \<le> 299) \<or> status < 500
      | Unreachable \<Rightarrow> False)"

text \<open>
  The loop of \<open>waitForHealthy\<close>. The clock is \<open>now\<close>; a request issued at time \<open>t\<close> is
  answered by the environment with a result and the time it took, or stays pending; the
  pause between two polls is the \<open>interval\<close> of 500 ms. The event \<open>Fetch t port\<close> records
  a request to the port issued at time \<open>t\<close>. The result \<open>None\<close> says that the promise of
  \<open>waitForHealthy\<close> never settles: \<open>fetch\<close> is called without a time limit, and the loop
  goes on only after its \<open>await\<close>.
\<close>

function wait_loop :: "environment \<Rightarrow> nat \<Rightarrow> nat \<Rightarrow> nat \<Rightarrow> world \<Rightarrow> bool option \<times> world" where
  "wait_loop env port timeoutMs start w =
     (if now w - start < timeoutMs then
        (case httpGet env (now w) port of
           None \<Rightarrow> (None, emit (Fetch (now w) port) w)
         | Some (res, took) \<Rightarrow>
             (let w1 = emit (Fetch (now w) port) (w\<lparr>now := now w + took\<rparr>)
              in if healthy_response res then (Some True, w1)
                 else wait_loop env port timeoutMs start (w1\<lparr>now := now w1 + 500\<rparr>)))
      else (Some False, w))"
  by pat_completeness auto
termination
  by (relation "measure (\<lambda>(env, port, timeoutMs, start, w). start + timeoutMs - now w)")
     (auto simp: emit_def)

declare wait_loop.simps [simp del]

definition waitForHealthy :: "environment \<Rightarrow> nat \<Rightarrow> nat \<Rightarrow> world \<Rightarrow> bool option \<times> world" where
  "waitForHealthy env port timeoutMs w = wait_loop env port timeoutMs (now w) w"

subsection \<open>The registry of log streams\<close>

definition stopLogStreaming :: "string \<Rightarrow> world \<Rightarrow> world" where
  "stopLogStreaming projectId w =
     (case logStreamers w projectId of
        Some cleanup \<Rightarrow>
          (let w1 = cancelStream cleanup w
           in emit (Unregister projectId) (w1\<lparr>logStreamers := (logStreamers w1)(projectId := None)\<rparr>))
      | None \<Rightarrow> w)"

definition startLogStreaming :: "string \<Rightarrow> string \<Rightarrow> world \<Rightarrow> world" where
  "startLogStreaming projectId buildId w =
     (let w1 = stopLogStreaming projectId w
      in case streamContainerLogs (getContainerName projectId) w1 of
           (cleanup, w2) \<Rightarrow>
             emit (Register projectId cleanup)
               (w2\<lparr>logStreamers := (logStreamers w2)(projectId \<mapsto> cleanup)\<rparr>))"

subsection \<open>Public operations\<close>

text \<open>The outcome of \<open>deploy\<close>: \<open>{ success, containerId?, error? }\<close>.\<close>

record DeployResult =
  success :: bool
  containerId :: "string option"
  error :: "string option"

text \<open>A template literal prints a missing value as \<open>undefined\<close>.\<close>

definition interpolate :: "string option \<Rightarrow> string" where
  "interpolate x = (case x of Some s \<Rightarrow> s | None \<Rightarrow> ''undefined'')"

text \<open>
  \<open>deploy\<close> awaits the health check, so its own promise may never settle: a \<open>task\<close>
  returns \<open>None\<close> then, with the world as it is left. \<open>thenTask\<close> is \<open>await\<close> followed by
  the rest, \<open>settled\<close> is a step that always returns.
\<close>

type_synonym 'a task = "world \<Rightarrow> (string + 'a) option \<times> world"

definition thenTask :: "'a task \<Rightarrow> ('a \<Rightarrow> 'b task) \<Rightarrow> 'b task" where
  "thenTask m f w =
     (case m w of
        (None, w') \<Rightarrow> (None, w')
      | (Some (Inl e), w') \<Rightarrow> (Some (Inl e), w')
      | (Some (Inr a), w') \<Rightarrow> f a w')"

definition settled :: "'a io \<Rightarrow> 'a task" where
  "settled m w = (case m w of (r, w') \<Rightarrow> (Some r, w'))"

definition pending :: "(world \<Rightarrow> 'a option \<times> world) \<Rightarrow> 'a task" where
  "pending m w = (case m w of (r, w') \<Rightarrow> (map_option Inr r, w'))"

text \<open>The body of the \<open>try\<close> block of \<open>deploy\<close>.\<close>

definition deploy_steps ::
  "environment \<Rightarrow> string \<Rightarrow> string \<Rightarrow> string \<Rightarrow> nat \<Rightarrow> FrameworkType \<Rightarrow> (string \<times> string) list
     \<Rightarrow> DeployResult task" where
  "deploy_steps env projectId buildId sourceDir hostPort appType envVars =
     (let containerName = getContainerName projectId;
          internalPort = internalPortOf appType
      in
      thenTask (settled (logStream env buildId ''Preparing container environment...'' Info)) (\<lambda>u.
      thenTask (settled (lift (ensureContainerStopped env projectId))) (\<lambda>u.
      thenTask (settled (logStream env buildId ''Building Docker image...'' Info)) (\<lambda>u.
      thenTask (settled (buildImage env projectId buildId sourceDir appType internalPort
                 (Some (logStream_detached env buildId Info)))) (\<lambda>buildResult.
      if \<not> build_success buildResult then
        thenTask (settled (logStream env buildId
                   (''Image build failed: '' @ interpolate (build_error buildResult)) Error)) (\<lambda>u.
        settled (ret \<lparr>success = False, containerId = None, error = build_error buildResult\<rparr>))
      else
      thenTask (settled (logStream env buildId ''Starting container...'' Info)) (\<lambda>u.
      thenTask (settled (lift (runContainer env
                 (deployConfig projectId buildId (build_imageName buildResult) sourceDir hostPort
                    appType envVars)))) (\<lambda>runResult.
      if \<not> run_success runResult then
        thenTask (settled (logStream env buildId
                   (''Container failed to start: '' @ interpolate (run_error runResult)) Error)) (\<lambda>u.
        settled (ret \<lparr>success = False, containerId = None, error = run_error runResult\<rparr>))
      else
      thenTask (settled (logStream env buildId (''Container started: '' @ containerName) Info)) (\<lambda>u.
      thenTask (settled (logStream env buildId ''Performing health check...'' Info)) (\<lambda>u.
      thenTask (pending (waitForHealthy env hostPort 15000)) (\<lambda>healthy.
      if \<not> healthy then
        thenTask (settled (lift (getContainerLogs env containerName 50))) (\<lambda>logs.
        thenTask (settled (logStream env buildId (''Container logs:'' @ [CHR 0x0A] @ logs) Warning)) (\<lambda>u.
        thenTask (settled (logStream env buildId ''Health check failed'' Error)) (\<lambda>u.
        thenTask (settled (lift (stopAndRemoveContainer env containerName))) (\<lambda>removed.
        settled (ret \<lparr>success = False, containerId = None, error = Some ''Health check failed''\<rparr>)))))
      else
      thenTask (settled (logStream env buildId ''Container deployed successfully!'' Success)) (\<lambda>u.
      thenTask (settled (lift (\<lambda>w. ((), pruneProjectImages env projectId 3 w)))) (\<lambda>u.
      thenTask (settled (lift (\<lambda>w. ((), startLogStreaming projectId buildId w)))) (\<lambda>u.
      settled (ret \<lparr>success = True, containerId = Some (run_containerId runResult), error = None\<rparr>)
      )))))))))))))"

text \<open>
  \<open>deploy\<close>: a fault inside the \<open>try\<close> block is logged and turned into a failure; a fault
  of that last log call leaves \<open>deploy\<close> as a fault.
\<close>

definition deploy ::
  "environment \<Rightarrow> string \<Rightarrow> string \<Rightarrow> string \<Rightarrow> nat \<Rightarrow> FrameworkType \<Rightarrow> (string \<times> string) list
     \<Rightarrow> DeployResult task" where
  "deploy env projectId buildId sourceDir hostPort appType envVars w =
     (case deploy_steps env projectId buildId sourceDir hostPort appType envVars w of
        (None, w') \<Rightarrow> (None, w')
      | (Some (Inr outcome), w') \<Rightarrow> (Some (Inr outcome), w')
      | (Some (Inl message), w') \<Rightarrow>
          settled (andThen (logStream env buildId (''Deployment error: '' @ message) Error) (\<lambda>u.
                   ret \<lparr>success = False, containerId = None, error = Some message\<rparr>)) w')"

text \<open>\<open>stop(projectId, buildId?)\<close>; \<open>if (buildId)\<close> holds for a non-empty string.\<close>

definition logIfGiven :: "environment \<Rightarrow> string option \<Rightarrow> string \<Rightarrow> severity \<Rightarrow> unit io" where
  "logIfGiven env buildId message level =
     (case buildId of
        Some b \<Rightarrow> if b \<noteq> [] then logStream env b message level else ret ()
      | None \<Rightarrow> ret ())"

definition stop :: "environment \<Rightarrow> string \<Rightarrow> string option \<Rightarrow> bool io" where
  "stop env projectId buildId w =
     (let w1 = stopLogStreaming projectId w;
          containerName = getContainerName projectId
      in
      andThen (logIfGiven env buildId ''Stopping container...'' Info) (\<lambda>u.
      andThen (lift (stopAndRemoveContainer env containerName)) (\<lambda>result.
      andThen (if result then logIfGiven env buildId ''Container stopped'' Success else ret ()) (\<lambda>u.
      ret result))) w1)"

definition cleanup :: "environment \<Rightarrow> string \<Rightarrow> string list option \<Rightarrow> world \<Rightarrow> world" where
  "cleanup env projectId buildIds w =
     (let w1 = stopLogStreaming projectId w;
          w2 = snd (ensureContainerStopped env projectId w1)
      in case buildIds of
           Some ids \<Rightarrow> removeImages env (map (getImageName projectId) ids) w2
         | None \<Rightarrow> w2)"

definition recoverLogStreams :: "environment \<Rightarrow> world \<Rightarrow> world" where
  "recoverLogStreams env w =
     (case listRunningContainers env w of
        (containers, w1) \<Rightarrow>
          fold (\<lambda>container. startLogStreaming (c_projectId container) (c_buildId container))
            containers w1)"

section \<open>Reading the sequence of effects\<close>

text \<open>The runtime commands, the stream processes spawned and the files written, in order.\<close>

definition docker_cmds :: "event list \<Rightarrow> string list list" where
  "docker_cmds tr = List.map_filter (\<lambda>e. case e of Docker args \<Rightarrow> Some args | _ \<Rightarrow> None) tr"

definition spawn_cmds :: "event list \<Rightarrow> string list list" where
  "spawn_cmds tr = List.map_filter (\<lambda>e. case e of Spawn proc args \<Rightarrow> Some args | _ \<Rightarrow> None) tr"

definition written_paths :: "event list \<Rightarrow> string list" where
  "written_paths tr = List.map_filter (\<lambda>e. case e of WriteFile path content \<Rightarrow> Some path | _ \<Rightarrow> None) tr"

definition written_contents :: "event list \<Rightarrow> string list" where
  "written_contents tr =
     List.map_filter (\<lambda>e. case e of WriteFile path content \<Rightarrow> Some content | _ \<Rightarrow> None) tr"

definition fetch_times :: "event list \<Rightarrow> nat list" where
  "fetch_times tr = List.map_filter (\<lambda>e. case e of Fetch t port \<Rightarrow> Some t | _ \<Rightarrow> None) tr"

text \<open>The effects a step adds to those issued before it.\<close>

definition new_events :: "world \<Rightarrow> world \<Rightarrow> event list" where
  "new_events w w' = drop (length (trace w)) (trace w')"

definition extends_trace :: "world \<Rightarrow> world \<Rightarrow> bool" where
  "extends_trace w w' = (take (length (trace w)) (trace w') = trace w)"

section \<open>A sample environment and world\<close>

text \<open>
  A runtime in which every command exits with status 0 and prints nothing, a log sink and a
  file system that never fault, and an endpoint that refuses every connection at once;
  a world with the given file system, an empty registry and nothing issued yet.
\<close>

definition quiet_env :: environment where
  "quiet_env =
     \<lparr>process = (\<lambda>h args. ([], Closed (Some 0))),
      sinkFault = (\<lambda>h b m l. None),
      writeFault = (\<lambda>h p. None),
      unlinkFault = (\<lambda>h p. False),
      packageHasStart = (\<lambda>c. False),
      httpGet = (\<lambda>t p. Some (Unreachable, 0)),
      dateTime = (\<lambda>s. None),
      engineSort = (\<lambda>xs. xs)\<rparr>"

definition initial_world :: "(string \<Rightarrow> fs_node option) \<Rightarrow> world" where
  "initial_world files =
     \<lparr>trace = [], fs = files, logStreamers = Map.empty, nextPid = 0, killed = {}, now = 0\<rparr>"

text \<open>
  A runtime whose listing of managed containers prints four lines: a container with both
  labels, one without a project label, one without a build label, and, last, another
  without a build label.
\<close>

definition listing_env :: environment where
  "listing_env =
     quiet_env
       \<lparr>process := (\<lambda>h args.
          ([Stdout ''thakur-a p1 b1\<newline>x  b2\<newline>y p3 \<newline>z p4 \<newline>''], Closed (Some 0)))\<rparr>"

text \<open>The same runtime with an endpoint that answers every request with status 200 after 20 ms.\<close>

definition healthy_env :: environment where
  "healthy_env = quiet_env\<lparr>httpGet := (\<lambda>t p. Some (Response 200, 20))\<rparr>"

text \<open>
  A runtime on a host in the zone IST: it lists five images of one project, not in the
  order of their creation, and fails every other command; the engine reads none of the
  dates (\<open>new Date\<close> of such a text is an invalid date).
\<close>

definition unread_dates_env :: environment where
  "unread_dates_env =
     quiet_env
       \<lparr>process := (\<lambda>h args.
          if args = imagesArgs ''proj-aaaa1111''
          then ([Stdout (''thakur-deploy/proj-aaa:b1 2024-03-01 10:00:00 +0530 IST\<newline>''
                         @ ''thakur-deploy/proj-aaa:b2 2024-05-01 10:00:00 +0530 IST\<newline>''
                         @ ''thakur-deploy/proj-aaa:b3 2024-01-01 10:00:00 +0530 IST\<newline>''
                         @ ''thakur-deploy/proj-aaa:b4 2024-04-01 10:00:00 +0530 IST\<newline>''
                         @ ''thakur-deploy/proj-aaa:b5 2024-02-01 10:00:00 +0530 IST\<newline>'')],
                Closed (Some 0))
          else ([Stderr ''failed''], Closed (Some 1))),
        dateTime := (\<lambda>s. None)\<rparr>"

text \<open>
  A runtime that lists five images of one project and fails every other command, with the
  creation times of the five dates.
\<close>

definition failing_removal_env :: environment where
  "failing_removal_env =
     quiet_env
       \<lparr>process := (\<lambda>h args.
          if args = imagesArgs ''proj-aaaa1111''
          then ([Stdout ''i:1 d1\<newline>i:2 d2\<newline>'', Stdout ''i:3 d3\<newline>i:4 d4\<newline>i:5 d5\<newline>''],
                Closed (Some 0))
          else ([Stderr ''failed''], Closed (Some 1))),
        dateTime := map_of [(''d1'', 10), (''d2'', 50), (''d3'', 30), (''d4'', 20), (''d5'', 40)]\<rparr>"

section \<open>The words of the claims\<close>

subsection \<open>Instructions of a recipe\<close>

text \<open>
  An instruction of a recipe is its first word, in any case, followed by whitespace and
  its arguments. A line exposes a port when its instruction is \<open>EXPOSE\<close>.
\<close>

definition instruction_name :: "string \<Rightarrow> string" where
  "instruction_name line = toUpperCase (takeWhile (\<lambda>c. \<not> is_space c) (dropWhile is_space line))"

definition instruction_args :: "string \<Rightarrow> string" where
  "instruction_args line = trim (dropWhile (\<lambda>c. \<not> is_space c) (dropWhile is_space line))"

definition exposed_ports :: "string \<Rightarrow> string list" where
  "exposed_ports content =
     map instruction_args
       (filter (\<lambda>line. instruction_name line = ''EXPOSE'') (split_on CHR 0x0A content))"

subsection \<open>Ports\<close>

text \<open>
  A \<open>run\<close> command maps the host port to the internal port when its flag \<open>-p\<close> says so;
  a file written is a recipe for the internal port when it is the recipe file of the
  source directory and its content is what the sanitizer makes of some recipe for that
  port, or the recipe generated for the application type and that port. An effect is in
  line with the ports when, if it is a \<open>run\<close> command or a file written, it is such a one.
\<close>

definition port_mapping :: "nat \<Rightarrow> nat \<Rightarrow> string list \<Rightarrow> bool" where
  "port_mapping hostPort internalPort args =
     (take 1 args = [''run''] \<longrightarrow>
        args ! 4 = ''-p'' \<and> args ! 5 = show_nat hostPort @ '':'' @ show_nat internalPort)"

definition recipe_for :: "string \<Rightarrow> FrameworkType \<Rightarrow> nat \<Rightarrow> string \<Rightarrow> string \<Rightarrow> bool" where
  "recipe_for sourceDir appType internalPort path content =
     (path = join_path sourceDir ''Dockerfile''
      \<and> ((\<exists>original. content = sanitizeDockerfile original internalPort)
         \<or> (\<exists>entryFile. content = getDockerfileContent appType internalPort entryFile)))"

definition port_event :: "nat \<Rightarrow> string \<Rightarrow> FrameworkType \<Rightarrow> event \<Rightarrow> bool" where
  "port_event hostPort sourceDir appType e =
     (case e of
        Docker args \<Rightarrow> port_mapping hostPort (internalPortOf appType) args
      | WriteFile path content \<Rightarrow> recipe_for sourceDir appType (internalPortOf appType) path content
      | _ \<Rightarrow> True)"

subsection \<open>Creation times\<close>

text \<open>The order of creation times on entries whose dates the engine reads.\<close>

definition created_not_before :: "environment \<Rightarrow> ImageEntry \<Rightarrow> ImageEntry \<Rightarrow> bool" where
  "created_not_before env a b =
     (case (dateTime env (img_date a), dateTime env (img_date b)) of
        (Some ta, Some tb) \<Rightarrow> tb \<le> ta
      | _ \<Rightarrow> False)"

text \<open>
  The runtime prints a creation time as \<open>2024-03-01 10:00:00 +0530 IST\<close>: date, time of
  day, offset and zone. Of two such texts with the same offset and zone, the earlier time
  is the one whose first 19 characters come first in the order of the characters.
\<close>

fun text_before :: "string \<Rightarrow> string \<Rightarrow> bool" where
  "text_before [] [] = False"
| "text_before [] (y # ys) = True"
| "text_before (x # xs) [] = False"
| "text_before (x # xs) (y # ys) =
     ((of_char x :: nat) < of_char y \<or> (x = y \<and> text_before xs ys))"

definition printed_earlier :: "string \<Rightarrow> string \<Rightarrow> bool" where
  "printed_earlier a b = (drop 19 a = drop 19 b \<and> text_before (take 19 a) (take 19 b))"

subsection \<open>The polls of the health check\<close>

text \<open>
  The times at which the health check polls, read off its description: the first poll is
  issued at the start, and each later one 500 ms after the answer to the one before. There
  is no later poll after a request that stays pending.
\<close>

primrec poll_time :: "environment \<Rightarrow> nat \<Rightarrow> nat \<Rightarrow> nat \<Rightarrow> nat option" where
  "poll_time env port start 0 = Some start"
| "poll_time env port start (Suc k) =
     (case poll_time env port start k of
        None \<Rightarrow> None
      | Some t \<Rightarrow>
          (case httpGet env t port of
             None \<Rightarrow> None
           | Some (res, took) \<Rightarrow> Some (t + took + 500)))"

definition poll_answer :: "environment \<Rightarrow> nat \<Rightarrow> nat \<Rightarrow> nat \<Rightarrow> (http_result \<times> nat) option" where
  "poll_answer env port start k =
     (case poll_time env port start k of None \<Rightarrow> None | Some t \<Rightarrow> httpGet env t port)"

text \<open>The answer to the poll number \<open>k\<close> is a response with a status below 500.\<close>

definition poll_healthy :: "environment \<Rightarrow> nat \<Rightarrow> nat \<Rightarrow> nat \<Rightarrow> bool" where
  "poll_healthy env port start k =
     (case poll_answer env port start k of
        Some (res, took) \<Rightarrow> healthy_response res
      | None \<Rightarrow> False)"

text \<open>The poll number \<open>k\<close> is answered, and not with such a response.\<close>

definition poll_unhealthy :: "environment \<Rightarrow> nat \<Rightarrow> nat \<Rightarrow> nat \<Rightarrow> bool" where
  "poll_unhealthy env port start k =
     (case poll_answer env port start k of
        Some (res, took) \<Rightarrow> \<not> healthy_response res
      | None \<Rightarrow> False)"

text \<open>The poll number \<open>k\<close> falls inside the window: it is due before the timeout has elapsed.\<close>

definition poll_in_window :: "environment \<Rightarrow> nat \<Rightarrow> nat \<Rightarrow> nat \<Rightarrow> nat \<Rightarrow> bool" where
  "poll_in_window env port start timeoutMs k =
     (case poll_time env port start k of Some t \<Rightarrow> t < start + timeoutMs | None \<Rightarrow> False)"

section \<open>The registry invariant\<close>

text \<open>
  The history of the registry is read from the sequence of effects: the registry as the
  \<open>set\<close> and \<open>delete\<close> calls so far leave it, the handles cancelled so far, and the
  handles stored so far for a project.
\<close>

definition registry_after :: "event list \<Rightarrow> string \<Rightarrow> nat option" where
  "registry_after tr =
     fold (\<lambda>e reg. case e of
                     Register p h \<Rightarrow> reg(p \<mapsto> h)
                   | Unregister p \<Rightarrow> reg(p := None)
                   | _ \<Rightarrow> reg) tr Map.empty"

definition cancelled :: "event list \<Rightarrow> nat list" where
  "cancelled tr = List.map_filter (\<lambda>e. case e of Kill h \<Rightarrow> Some h | _ \<Rightarrow> None) tr"

definition registered :: "string \<Rightarrow> event list \<Rightarrow> nat list" where
  "registered p tr =
     List.map_filter (\<lambda>e. case e of Register q h \<Rightarrow> if q = p then Some h else None | _ \<Rightarrow> None) tr"

text \<open>The handles of a project that are active: stored for it at some time and not cancelled.\<close>

definition active :: "string \<Rightarrow> event list \<Rightarrow> nat list" where
  "active p tr = filter (\<lambda>h. h \<notin> set (cancelled tr)) (remdups (registered p tr))"

text \<open>
  An effect is in order after the effects \<open>pre\<close> when, if it stores a handle for a project,
  the registry holds no handle for that project, every handle stored for it before has been
  cancelled, and the new handle has not; and, if it deletes the entry of a project, the
  handle in that entry has been cancelled. A history is orderly when each of its effects is
  in order after those before it.
\<close>

definition event_ok :: "event list \<Rightarrow> event \<Rightarrow> bool" where
  "event_ok pre e =
     (case e of
        Register p h \<Rightarrow>
          registry_after pre p = None
          \<and> list_all (\<lambda>old. old \<in> set (cancelled pre)) (registered p pre)
          \<and> h \<notin> set (cancelled pre)
      | Unregister p \<Rightarrow>
          (case registry_after pre p of Some old \<Rightarrow> old \<in> set (cancelled pre) | None \<Rightarrow> True)
      | _ \<Rightarrow> True)"

definition orderly :: "event list \<Rightarrow> bool" where
  "orderly tr = list_all (\<lambda>n. event_ok (take n tr) (tr ! n)) [0..<length tr]"

text \<open>
  The registry is well-formed when every handle it stores is a stream process that was
  spawned and has not been cancelled, no handle is stored for two projects, and only
  spawned processes have been cancelled. As a map it holds at most one handle per project.
\<close>

definition registry_ok :: "world \<Rightarrow> bool" where
  "registry_ok w =
     ((\<forall>p h. logStreamers w p = Some h \<longrightarrow> h < nextPid w \<and> h \<notin> killed w)
      \<and> (\<forall>p q h. logStreamers w p = Some h \<and> logStreamers w q = Some h \<longrightarrow> p = q)
      \<and> (\<forall>h \<in> killed w. h < nextPid w))"

text \<open>The state agrees with the history.\<close>

definition tracked :: "world \<Rightarrow> bool" where
  "tracked w = (logStreamers w = registry_after (trace w) \<and> killed w = set (cancelled (trace w)))"

definition registry_inv :: "world \<Rightarrow> bool" where
  "registry_inv w = (registry_ok w \<and> tracked w \<and> orderly (trace w))"

text \<open>The operations that touch the registry, from a state to the state they leave.\<close>

inductive registry_operation :: "environment \<Rightarrow> world \<Rightarrow> world \<Rightarrow> bool" where
  op_deploy:
    "registry_operation env w
       (snd (deploy env projectId buildId sourceDir hostPort appType envVars w))"
| op_startLogStreaming: "registry_operation env w (startLogStreaming projectId buildId w)"
| op_stopLogStreaming: "registry_operation env w (stopLogStreaming projectId w)"
| op_stop: "registry_operation env w (snd (stop env projectId buildIdOpt w))"
| op_cleanup: "registry_operation env w (cleanup env projectId buildIds w)"
| op_recoverLogStreams: "registry_operation env w (recoverLogStreams env w)"

text \<open>
  A step adds effects to the history, each of them with the property \<open>P\<close>.
\<close>

definition adds :: "(event \<Rightarrow> bool) \<Rightarrow> world \<Rightarrow> world \<Rightarrow> bool" where
  "adds P w w' = (extends_trace w w' \<and> list_all P (new_events w w'))"

definition emits :: "(event \<Rightarrow> bool) \<Rightarrow> (world \<Rightarrow> 'r \<times> world) \<Rightarrow> bool" where
  "emits P m = (\<forall>w. adds P w (snd (m w)))"

text \<open>
  The effects of a step that has nothing to do with the log streams: runtime commands
  among \<open>D\<close>, files written among \<open>W\<close>, log lines, removed files and requests. Such a
  step is calm when it also leaves the registry, the cancelled processes and the process
  counter alone, and inert when it leaves the clock alone too.
\<close>

definition plain_event :: "(string list \<Rightarrow> bool) \<Rightarrow> (string \<Rightarrow> string \<Rightarrow> bool) \<Rightarrow> event \<Rightarrow> bool" where
  "plain_event D W e =
     (case e of
        Docker args \<Rightarrow> D args
      | WriteFile path content \<Rightarrow> W path content
      | LogStream b m l \<Rightarrow> True
      | Unlink path \<Rightarrow> True
      | Fetch t port \<Rightarrow> True
      | _ \<Rightarrow> False)"

definition calm ::
  "(string list \<Rightarrow> bool) \<Rightarrow> (string \<Rightarrow> string \<Rightarrow> bool) \<Rightarrow> world \<Rightarrow> world \<Rightarrow> bool" where
  "calm D W w w' =
     (logStreamers w' = logStreamers w \<and> killed w' = killed w \<and> nextPid w' = nextPid w
      \<and> adds (plain_event D W) w w')"

definition inert ::
  "(string list \<Rightarrow> bool) \<Rightarrow> (string \<Rightarrow> string \<Rightarrow> bool) \<Rightarrow> world \<Rightarrow> world \<Rightarrow> bool" where
  "inert D W w w' = (calm D W w w' \<and> now w' = now w)"

text \<open>A set of runtime commands that has every command other than \<open>run\<close>.\<close>

definition nonrun :: "(string list \<Rightarrow> bool) \<Rightarrow> bool" where
  "nonrun D = (\<forall>args. take 1 args \<noteq> [''run''] \<longrightarrow> D args)"

definition keeps ::
  "(string list \<Rightarrow> bool) \<Rightarrow> (string \<Rightarrow> string \<Rightarrow> bool) \<Rightarrow> (world \<Rightarrow> 'r \<times> world) \<Rightarrow> bool" where
  "keeps D W m = (\<forall>w. inert D W w (snd (m w)))"

definition steady :: "(world \<Rightarrow> 'r \<times> world) \<Rightarrow> bool" where
  "steady m = (\<forall>w. registry_inv w \<longrightarrow> registry_inv (snd (m w)))"

text \<open>A log callback that is inert, as the one \<open>deploy\<close> passes is.\<close>

definition quiet_log ::
  "(string list \<Rightarrow> bool) \<Rightarrow> (string \<Rightarrow> string \<Rightarrow> bool) \<Rightarrow> (string \<Rightarrow> world \<Rightarrow> world) option \<Rightarrow> bool" where
  "quiet_log D W onLog = (case onLog of None \<Rightarrow> True | Some f \<Rightarrow> \<forall>m w. inert D W w (f m w))"

section \<open>Properties\<close>

subsection \<open>Strings\<close>

lemma split_on_nonempty: "split_on d s \<noteq> []"
  by (induction s) (auto split: list.splits)

lemma split_on_no_sep: "l \<in> set (split_on d s) \<Longrightarrow> d \<notin> set l"
  by (induction s arbitrary: l) (auto split: list.splits if_splits)


lemma split_on_plain: "d \<notin> set x \<Longrightarrow> split_on d x = [x]"
  by (induction x) auto

lemma split_on_append_sep: "d \<notin> set x \<Longrightarrow> split_on d (x @ d # r) = x # split_on d r"
  by (induction x) auto


lemma split_join_on:
  "ls \<noteq> [] \<Longrightarrow> \<forall>l \<in> set ls. d \<notin> set l \<Longrightarrow> split_on d (join_with [d] ls) = ls"
proof (induction ls)
  case Nil
  then show ?case by simp
next
  case (Cons x xs)
  show ?case
  proof (cases xs)
    case Nil
    with Cons.prems show ?thesis by (simp add: split_on_plain)
  next
    case (Cons y ys)
    with Cons.prems Cons.IH show ?thesis by (simp add: split_on_append_sep)
  qed
qed

lemma digit_nth: "k < 10 \<Longrightarrow> is_digit (''0123456789'' ! k)"
proof -
  have "list_all is_digit ''0123456789''" by (simp add: is_digit_def)
  moreover assume "k < 10"
  ultimately show ?thesis by (simp add: list_all_length)
qed


lemma show_nat_nonempty: "show_nat n \<noteq> []"
  by (subst show_nat.simps) simp

lemma show_nat_digits: "c \<in> set (show_nat n) \<Longrightarrow> is_digit c"
proof (induction n arbitrary: c rule: show_nat.induct)
  case (1 n)
  show ?case
  proof (cases "n < 10")
    case True
    have "show_nat n = [''0123456789'' ! n]" using True by (subst show_nat.simps) simp
    with "1.prems" digit_nth [OF True] show ?thesis by simp
  next
    case False
    have eq: "show_nat n = show_nat (n div 10) @ [''0123456789'' ! (n mod 10)]"
      using False by (subst show_nat.simps) simp
    have "n mod 10 < 10" by simp
    then have "is_digit (''0123456789'' ! (n mod 10))" by (rule digit_nth)
    with "1.prems" "1.IH" [OF False] eq show ?thesis by auto
  qed
qed

lemma digit_not_space: "is_digit c \<Longrightarrow> \<not> is_space c"
  by (auto simp: is_digit_def is_space_def)

lemma digit_not_newline: "is_digit c \<Longrightarrow> c \<noteq> CHR 0x0A"
  by (auto simp: is_digit_def)


lemma space_cases: "is_space c \<Longrightarrow> c = CHR '' '' \<or> c = CHR 0x09 \<or> c = CHR 0x0A \<or> c = CHR 0x0B \<or> c = CHR 0x0C \<or> c = CHR 0x0D"
  by (simp add: is_space_def)

lemma space_upper: "is_space c \<Longrightarrow> upper_char c = c"
proof -
  assume "is_space c"
  then consider "c = CHR '' ''" | "c = CHR 0x09" | "c = CHR 0x0A" | "c = CHR 0x0B" | "c = CHR 0x0C" | "c = CHR 0x0D"
    using space_cases by blast
  then show ?thesis by cases (simp_all add: upper_char_def)
qed


lemma trim_end_Cons_nonspace: "\<not> is_space c \<Longrightarrow> trim_end (c # cs) = c # trim_end cs"
  by (simp add: Let_def)

lemma trim_end_prefix: "\<exists>zs. s = trim_end s @ zs"
  by (induction s) (auto simp: Let_def)

lemma trim_nonspace_head: "\<not> is_space c \<Longrightarrow> trim (c # cs) = c # trim_end cs"
  by (simp add: trim_def Let_def)

lemma trim_skip_space: "is_space c \<Longrightarrow> trim (c # cs) = trim cs"
  by (simp add: trim_def)

lemma is_expose_written: "is_expose (''EXPOSE '' @ show_nat p)"
proof -
  obtain d ds where ds: "show_nat p = d # ds" using show_nat_nonempty [of p] by (cases "show_nat p") auto
  then have "is_digit d" using show_nat_digits [of d p] by simp
  then have nsp: "\<not> is_space d" by (rule digit_not_space)
  have "trim (''EXPOSE '' @ show_nat p) = ''EXPOSE '' @ d # trim_end ds"
    using nsp by (simp add: ds trim_def is_space_def Let_def)
  then show ?thesis by (simp add: is_expose_def toUpperCase_def upper_char_def)
qed

lemma not_expose_env_written: "\<not> is_expose (''ENV PORT='' @ s)"
  by (simp add: is_expose_def trim_def is_space_def Let_def toUpperCase_def upper_char_def)

lemma not_expose_removed: "\<not> is_expose (''# REMOVED FOR SECURITY: '' @ s)"
  by (simp add: is_expose_def trim_def is_space_def Let_def toUpperCase_def upper_char_def)

subsection \<open>Recipe sanitization\<close>

lemma match_port_head: "upper_char c \<noteq> CHR ''P'' \<Longrightarrow> match_port (c # cs) = None"
  by (simp add: match_port_def toUpperCase_def)

lemma replace_port_skip:
  "upper_char c \<noteq> CHR ''P'' \<Longrightarrow> replace_port p (c # cs) = c # replace_port p cs"
  by (simp add: match_port_head)

lemma space_not_P: "is_space c \<Longrightarrow> upper_char c \<noteq> CHR ''P''"
  using space_upper [of c] space_cases [of c] by auto

lemma upper_nonspace: "upper_char c = u \<Longrightarrow> \<not> is_space u \<Longrightarrow> \<not> is_space c"
  using space_upper [of c] by auto

lemma is_expose_skip_space: "is_space c \<Longrightarrow> is_expose (c # cs) = is_expose cs"
  by (simp add: is_expose_def trim_skip_space)

lemma env_line_replaced_not_expose:
  "startsWith ''ENV '' (toUpperCase (trim l)) \<Longrightarrow> \<not> is_expose (replace_port p l)"
proof (induction l)
  case Nil
  then show ?case by (simp add: trim_def toUpperCase_def)
next
  case (Cons c cs)
  show ?case
  proof (cases "is_space c")
    case True
    with Cons show ?thesis
      by (simp add: match_port_head space_not_P is_expose_skip_space trim_skip_space)
  next
    case False
    from Cons.prems False have st: "startsWith ''ENV '' (upper_char c # toUpperCase (trim_end cs))"
      by (simp add: trim_nonspace_head toUpperCase_def)
    then have uc: "upper_char c = CHR ''E''" by simp
    from st obtain n r where te: "trim_end cs = n # r" and un: "upper_char n = CHR ''N''"
      by (cases "trim_end cs") (auto simp: toUpperCase_def)
    from trim_end_prefix [of cs] te obtain zs where cs: "cs = n # r @ zs" by auto
    have nsn: "\<not> is_space n" using un by (rule upper_nonspace) (simp add: is_space_def)
    have "replace_port p (c # cs) = c # n # replace_port p (r @ zs)"
      using uc un by (simp add: cs match_port_head)
    then have "trim (replace_port p (c # cs)) = c # n # trim_end (replace_port p (r @ zs))"
      using False nsn by (simp add: trim_nonspace_head trim_end_Cons_nonspace)
    then show ?thesis using uc un by (simp add: is_expose_def toUpperCase_def)
  qed
qed



lemma match_port_rest: "match_port s = Some r \<Longrightarrow> set r \<subseteq> set s"
proof -
  assume m: "match_port s = Some r"
  define r1 where "r1 = dropWhile is_space (drop 4 s)"
  define r2 where "r2 = (case r1 of [] \<Rightarrow> r1 | c # cs \<Rightarrow> if c = CHR ''='' then cs else r1)"
  define r3 where "r3 = dropWhile is_space r2"
  have a: "set r1 \<subseteq> set s" unfolding r1_def
    using set_dropWhileD in_set_dropD by fast
  have b: "set r2 \<subseteq> set r1" unfolding r2_def by (cases r1) auto
  have c: "set r3 \<subseteq> set r2" unfolding r3_def using set_dropWhileD by fast
  from m have "toUpperCase (take 4 s) = ''PORT''"
    unfolding match_port_def by (simp split: if_splits)
  with m have "(case r3 of [] \<Rightarrow> None | c # cs \<Rightarrow> if is_digit c then Some (dropWhile is_digit r3) else None) = Some r"
    unfolding match_port_def r1_def r2_def r3_def Let_def by simp
  then have "r = dropWhile is_digit r3" by (cases r3) (auto split: if_splits)
  then have "set r \<subseteq> set r3" using set_dropWhileD by fast
  with a b c show ?thesis by blast
qed


lemma replace_port_chars:
  "x \<in> set (replace_port p l) \<Longrightarrow> x \<in> set l \<or> x \<in> set ''PORT='' \<or> is_digit x"
proof (induction l)
  case Nil
  then show ?case by simp
next
  case (Cons c cs)
  show ?case
  proof (cases "match_port (c # cs)")
    case None
    with Cons show ?thesis by auto
  next
    case (Some r)
    with Cons.prems have "x \<in> set ''PORT='' \<or> x \<in> set (show_nat p) \<or> x \<in> set r" by auto
    with match_port_rest [OF Some] show_nat_digits [of x p] show ?thesis by blast
  qed
qed

lemma replace_port_no_newline:
  "CHR 0x0A \<notin> set l \<Longrightarrow> CHR 0x0A \<notin> set (replace_port p l)"
proof
  assume a: "CHR 0x0A \<notin> set l" and b: "CHR 0x0A \<in> set (replace_port p l)"
  from replace_port_chars [OF b] a have "CHR 0x0A \<in> set ''PORT='' \<or> is_digit (CHR 0x0A)" by blast
  then show False by (simp add: is_digit_def)
qed

lemma show_nat_no_newline: "CHR 0x0A \<notin> set (show_nat p)"
  using show_nat_digits [of "CHR 0x0A" p] by (auto simp: is_digit_def)

lemma sanitizeLine_no_newline:
  "CHR 0x0A \<notin> set l \<Longrightarrow> CHR 0x0A \<notin> set (sanitizeLine p l)"
  by (simp add: sanitizeLine_def replace_port_no_newline show_nat_no_newline)

lemma sanitizeLine_expose_iff: "is_expose (sanitizeLine p l) = is_expose l"
proof (cases "is_expose l")
  case True
  with is_expose_written [of p] show ?thesis by (simp add: sanitizeLine_def)
next
  case ne: False
  show ?thesis
  proof (cases "is_port_env l")
    case True
    then have "startsWith ''ENV '' (toUpperCase (trim l))" by (simp add: is_port_env_def Let_def)
    then have "\<not> is_expose (replace_port p l)" by (rule env_line_replaced_not_expose)
    with ne True show ?thesis by (simp add: sanitizeLine_def)
  next
    case False
    with ne not_expose_removed [of l] show ?thesis by (simp add: sanitizeLine_def)
  qed
qed

lemma sanitizeLine_expose_written:
  "is_expose (sanitizeLine p l) \<Longrightarrow> sanitizeLine p l = ''EXPOSE '' @ show_nat p"
  by (simp add: sanitizeLine_expose_iff) (simp add: sanitizeLine_def)

lemma filter_take_drop: "filter P (take i xs) @ filter P (drop i xs) = filter P xs"
  by (metis append_take_drop_id filter_append)

lemma set_take_drop: "set (take i xs) \<union> set (drop i xs) = set xs"
  by (metis append_take_drop_id set_append)

lemma set_insert_before_cmd: "set (insert_before_cmd y xs) = insert y (set xs)"
  by (simp add: insert_before_cmd_def set_take_drop split: option.splits)

lemma filter_insert_before_cmd: "\<not> P y \<Longrightarrow> filter P (insert_before_cmd y xs) = filter P xs"
  by (simp add: insert_before_cmd_def filter_take_drop split: option.splits)

lemma sanitizedLines_alt:
  "sanitizedLines content p =
     (if hasPortEnv (split_on CHR 0x0A content)
      then map (sanitizeLine p) (split_on CHR 0x0A content)
             @ (if hasExpose (split_on CHR 0x0A content) then [] else [''EXPOSE '' @ show_nat p])
      else insert_before_cmd (''ENV PORT='' @ show_nat p)
             (map (sanitizeLine p) (split_on CHR 0x0A content)
                @ (if hasExpose (split_on CHR 0x0A content) then [] else [''EXPOSE '' @ show_nat p])))"
  unfolding sanitizedLines_def Let_def
  by (cases "hasExpose (split_on CHR 0x0A content)"; cases "hasPortEnv (split_on CHR 0x0A content)")
     (simp_all only: if_True if_False not_True_eq_False not_False_eq_True append_Nil2)

lemma filter_expose_sanitized:
  "filter is_expose (map (sanitizeLine p) ls) = map (sanitizeLine p) (filter is_expose ls)"
  by (induction ls) (simp_all add: sanitizeLine_expose_iff)

lemma insert_before_cmd_nonempty: "insert_before_cmd y xs \<noteq> []"
  using set_insert_before_cmd [of y xs] by auto

lemma sanitizedLines_nonempty: "sanitizedLines content p \<noteq> []"
  using split_on_nonempty [of "CHR 0x0A" content]
  by (simp add: sanitizedLines_alt insert_before_cmd_nonempty)

lemma sanitizedLines_members:
  "l \<in> set (sanitizedLines content p) \<Longrightarrow>
     l \<in> sanitizeLine p ` set (split_on CHR 0x0A content)
     \<or> l = ''EXPOSE '' @ show_nat p \<or> l = ''ENV PORT='' @ show_nat p"
  by (auto simp: sanitizedLines_alt set_insert_before_cmd split: if_splits)

lemma sanitizedLines_no_newline:
  assumes "l \<in> set (sanitizedLines content p)"
  shows "CHR 0x0A \<notin> set l"
proof -
  have l1: "\<And>x. x \<in> sanitizeLine p ` set (split_on CHR 0x0A content) \<Longrightarrow> CHR 0x0A \<notin> set x"
    using split_on_no_sep sanitizeLine_no_newline by auto
  have e: "CHR 0x0A \<notin> set (''EXPOSE '' @ show_nat p)" using show_nat_no_newline [of p] by simp
  have v: "CHR 0x0A \<notin> set (''ENV PORT='' @ show_nat p)" using show_nat_no_newline [of p] by simp
  from sanitizedLines_members [OF assms] l1 e v show ?thesis by blast
qed

lemma split_sanitizeDockerfile:
  "split_on CHR 0x0A (sanitizeDockerfile content p) = sanitizedLines content p"
  unfolding sanitizeDockerfile_def
  by (rule split_join_on) (simp_all add: sanitizedLines_nonempty sanitizedLines_no_newline)

lemma filter_expose_sanitizedLines:
  "filter is_expose (sanitizedLines content p) =
     (if hasExpose (split_on CHR 0x0A content)
      then map (sanitizeLine p) (filter is_expose (split_on CHR 0x0A content))
      else [''EXPOSE '' @ show_nat p])"
proof -
  define e where "e = ''EXPOSE '' @ show_nat p"
  define v where "v = ''ENV PORT='' @ show_nat p"
  define ls where "ls = split_on CHR 0x0A content"
  have ne: "\<not> is_expose v" unfolding v_def by (rule not_expose_env_written)
  have ye: "is_expose e" unfolding e_def by (rule is_expose_written)
  have none: "\<not> hasExpose ls \<Longrightarrow> filter is_expose ls = []"
    by (auto simp: hasExpose_def list_ex_iff filter_empty_conv)
  have alt: "sanitizedLines content p =
     (if hasPortEnv ls then map (sanitizeLine p) ls @ (if hasExpose ls then [] else [e])
      else insert_before_cmd v (map (sanitizeLine p) ls @ (if hasExpose ls then [] else [e])))"
    unfolding e_def v_def ls_def by (rule sanitizedLines_alt)
  have "filter is_expose (sanitizedLines content p) =
          (if hasExpose ls then map (sanitizeLine p) (filter is_expose ls) else [e])"
    using ne ye none
    by (simp add: alt filter_insert_before_cmd filter_expose_sanitized)
  then show ?thesis unfolding e_def ls_def .
qed

text \<open>
  Read line by line with the sanitizer's own test for an EXPOSE line (after \<open>trim\<close> and
  \<open>toUpperCase\<close> the line starts with \<open>EXPOSE\<close> and a space): the sanitized recipe
  has such a line, every such line is \<open>EXPOSE\<close> followed by the internal port, and there
  are as many as the input had, or one when the input had none.
\<close>

lemma recognised_expose_lines_rewritten:
  "(\<exists>l \<in> set (split_on CHR 0x0A (sanitizeDockerfile content internalPort)). is_expose l)
   \<and> (\<forall>l \<in> set (split_on CHR 0x0A (sanitizeDockerfile content internalPort)).
          is_expose l \<longrightarrow> l = ''EXPOSE '' @ show_nat internalPort)
   \<and> length (filter is_expose (split_on CHR 0x0A (sanitizeDockerfile content internalPort)))
       = max 1 (length (filter is_expose (split_on CHR 0x0A content)))"
proof -
  define ls where "ls = split_on CHR 0x0A content"
  define out where "out = split_on CHR 0x0A (sanitizeDockerfile content internalPort)"
  define e where "e = ''EXPOSE '' @ show_nat internalPort"
  have out: "out = sanitizedLines content internalPort"
    unfolding out_def by (rule split_sanitizeDockerfile)
  have f: "filter is_expose out =
             (if hasExpose ls then map (sanitizeLine internalPort) (filter is_expose ls) else [e])"
    unfolding out ls_def e_def by (rule filter_expose_sanitizedLines)
  have has: "hasExpose ls \<longleftrightarrow> filter is_expose ls \<noteq> []"
    by (auto simp: hasExpose_def list_ex_iff filter_empty_conv)
  have all: "\<forall>l \<in> set out. is_expose l \<longrightarrow> l = e"
  proof (intro ballI impI)
    fix l assume "l \<in> set out" and x: "is_expose l"
    then have "l \<in> set (filter is_expose out)" by simp
    then have "l = e \<or> (\<exists>k. l = sanitizeLine internalPort k)" by (auto simp: f split: if_splits)
    with x show "l = e" unfolding e_def using sanitizeLine_expose_written by blast
  qed
  have len: "length (filter is_expose out) = max 1 (length (filter is_expose ls))"
    using has by (cases "filter is_expose ls") (simp_all add: f)
  then have "filter is_expose out \<noteq> []" by (cases "filter is_expose out") simp_all
  then have ex: "\<exists>l \<in> set out. is_expose l" by (auto simp: filter_empty_conv)
  from ex all len show ?thesis unfolding out_def ls_def e_def by blast
qed

lemmas sanitize_eval =
  sanitizeDockerfile_def sanitizedLines_def insert_before_cmd_def sanitizeLine_def
  hasExpose_def hasPortEnv_def is_expose_def is_port_env_def is_dangerous_def is_cmd_def
  trim_def toUpperCase_def upper_char_def is_space_def is_digit_def match_port_def Let_def
  show_nat.simps


text \<open>
  C3 fails on the code. The sanitizer recognises an EXPOSE instruction only when the word
  is followed by a space. In the recipe of two lines \<open>FROM node:20\<close> and \<open>EXPOSE\<close>,
  a tabulator, \<open>8080\<close>, the second line is left as it is: the sanitized recipe for the
  internal port 3000 exposes the port 8080 beside the port 3000.
\<close>

theorem sanitize_keeps_tab_expose:
  "sanitizeDockerfile (''FROM node:20'' @ [CHR 0x0A] @ ''EXPOSE'' @ [CHR 0x09] @ ''8080'') 3000
     = ''FROM node:20'' @ [CHR 0x0A] @ ''EXPOSE'' @ [CHR 0x09] @ ''8080'' @ [CHR 0x0A]
         @ ''EXPOSE 3000'' @ [CHR 0x0A] @ ''ENV PORT=3000''
   \<and> exposed_ports
         (sanitizeDockerfile (''FROM node:20'' @ [CHR 0x0A] @ ''EXPOSE'' @ [CHR 0x09] @ ''8080'') 3000)
       = [''8080'', ''3000'']"
  by (simp add: sanitize_eval exposed_ports_def instruction_name_def instruction_args_def)





subsection \<open>Naming\<close>

text \<open>
  C7. The container name is the fixed prefix followed by the first 8 characters of the
  project identifier; the image reference is the fixed namespace, the first 8 characters of
  the project identifier, a colon and the first 8 characters of the build identifier. Both
  are functions of their arguments, so a repeated call returns the same name. Two project
  identifiers get the same container name exactly when their first 8 characters agree: if
  they differ there, the names differ.
\<close>

theorem naming_first_eight:
  "getContainerName p = ''thakur-'' @ take 8 p
   \<and> getImageName p b = ''thakur-deploy/'' @ take 8 p @ '':'' @ take 8 b
   \<and> (getContainerName p = getContainerName p' \<longleftrightarrow> take 8 p = take 8 p')
   \<and> (take 8 p \<noteq> take 8 p' \<longrightarrow> getContainerName p \<noteq> getContainerName p')"
  by (simp add: getContainerName_def getImageName_def)

theorem naming_first_eight_witness:
  "take 8 ''proj-aaaa1111'' \<noteq> take 8 ''proj-aabb1111''
   \<and> getContainerName ''proj-aaaa1111'' = ''thakur-proj-aaa''
   \<and> getContainerName ''proj-aabb1111'' = ''thakur-proj-aab''
   \<and> getContainerName ''proj-aaaa1111'' \<noteq> getContainerName ''proj-aabb1111''
   \<and> getImageName ''proj-aaaa1111'' ''bld-bbbb2222'' = ''thakur-deploy/proj-aaa:bld-bbbb''"
  using naming_first_eight [of "''proj-aaaa1111''" "''bld-bbbb2222''" "''proj-aabb1111''"]
  by (simp add: getContainerName_def getImageName_def)

subsection \<open>Effects of the image builder\<close>

lemma written_paths_append: "written_paths (xs @ ys) = written_paths xs @ written_paths ys"
  by (simp add: written_paths_def map_filter_def)

lemma fold_callLog_None: "fold (callLog None) ls w = w"
  by (induction ls) (simp_all add: callLog_def)

lemma execDockerWithStream_None:
  "snd (execDockerWithStream env args (callLog None) w) = emit (Docker args) w"
  by (simp add: execDockerWithStream_def fold_callLog_None split: prod.splits)


















subsection \<open>The listing of managed containers\<close>

lemma in_set_map_filter:
  "x \<in> set (List.map_filter f xs) \<longleftrightarrow> (\<exists>y \<in> set xs. f y = Some x)"
  by (induction xs) (auto simp: map_filter_simps split: option.splits)

lemma parse_container_line_Some:
  "parse_container_line line = Some c \<Longrightarrow>
     3 \<le> length (split_ws line) \<and> c_containerName c = split_ws line ! 0
     \<and> c_projectId c = split_ws line ! 1 \<and> c_buildId c = split_ws line ! 2"
  by (auto simp: parse_container_line_def split: list.splits)

lemma parse_container_line_short:
  "length (split_ws line) < 3 \<Longrightarrow> parse_container_line line = None"
  by (auto simp: parse_container_line_def split: list.splits)

lemma parse_listing_entry:
  assumes "c \<in> set (parse_listing result)"
  shows "c_projectId c \<noteq> [] \<and> c_buildId c \<noteq> []
     \<and> (\<exists>line \<in> set (split_on CHR 0x0A (stdout result)). line \<noteq> [] \<and> parse_container_line line = Some c)"
  using assms
  by (auto simp: parse_listing_def in_set_map_filter split: if_splits option.splits)

lemma spawn_cmds_append: "spawn_cmds (xs @ ys) = spawn_cmds xs @ spawn_cmds ys"
  by (simp add: spawn_cmds_def map_filter_def)

lemma spawn_cmds_startLogStreaming:
  "spawn_cmds (trace (startLogStreaming p b w)) =
     spawn_cmds (trace w) @ [[''logs'', ''-f'', ''--tail'', ''0'', getContainerName p]]"
  by (simp add: startLogStreaming_def stopLogStreaming_def streamContainerLogs_def cancelStream_def
        emit_def spawn_cmds_append split: option.splits)
     (simp add: spawn_cmds_def map_filter_def)

lemma spawn_cmds_fold_start:
  "spawn_cmds (trace (fold (\<lambda>c. startLogStreaming (c_projectId c) (c_buildId c)) cs w)) =
     spawn_cmds (trace w)
       @ map (\<lambda>c. [''logs'', ''-f'', ''--tail'', ''0'', getContainerName (c_projectId c)]) cs"
  by (induction cs arbitrary: w) (simp_all add: spawn_cmds_startLogStreaming)

lemma logStreamers_startLogStreaming_other:
  "q \<noteq> p \<Longrightarrow> logStreamers (startLogStreaming p b w) q = logStreamers w q"
  by (simp add: startLogStreaming_def stopLogStreaming_def streamContainerLogs_def cancelStream_def
        emit_def split: option.splits)

lemma logStreamers_fold_start_other:
  "q \<notin> c_projectId ` set cs \<Longrightarrow>
     logStreamers (fold (\<lambda>c. startLogStreaming (c_projectId c) (c_buildId c)) cs w) q = logStreamers w q"
  by (induction cs arbitrary: w) (auto simp: logStreamers_startLogStreaming_other)

text \<open>
  C10. \<open>listRunningContainers\<close> returns what \<open>parse_listing\<close> makes of the result of the
  listing command. For every result \<open>r\<close>: a non-zero exit status gives the empty list; every
  entry returned has a non-empty project identifier and a non-empty build identifier and
  is the first three whitespace-separated fields of a line of the output that has at least
  three; a line with fewer than three fields yields no entry. The function is total, so no
  line causes a fault. \<open>recoverLogStreams\<close> spawns one log stream per entry returned, for
  the container named after the entry's project identifier, and changes the registry at no
  other key than the project identifiers returned.
\<close>

theorem listing_keeps_labelled_only:
  "fst (listRunningContainers env w) = parse_listing (execResult env (trace w) listArgs)
   \<and> (exitCode r \<noteq> 0 \<longrightarrow> parse_listing r = [])
   \<and> (\<forall>c \<in> set (parse_listing r).
          c_projectId c \<noteq> [] \<and> c_buildId c \<noteq> []
          \<and> (\<exists>line \<in> set (split_on CHR 0x0A (stdout r)).
                3 \<le> length (split_ws line) \<and> c_containerName c = split_ws line ! 0
                \<and> c_projectId c = split_ws line ! 1 \<and> c_buildId c = split_ws line ! 2))
   \<and> (\<forall>line. length (split_ws line) < 3 \<longrightarrow> parse_container_line line = None)
   \<and> spawn_cmds (trace (recoverLogStreams env w)) =
         spawn_cmds (trace w)
           @ map (\<lambda>c. [''logs'', ''-f'', ''--tail'', ''0'', getContainerName (c_projectId c)])
               (parse_listing (execResult env (trace w) listArgs))
   \<and> (\<forall>q. logStreamers (recoverLogStreams env w) q \<noteq> logStreamers w q \<longrightarrow>
            q \<in> c_projectId ` set (parse_listing (execResult env (trace w) listArgs)))"
proof -
  have a: "fst (listRunningContainers env w) = parse_listing (execResult env (trace w) listArgs)"
    by (simp add: listRunningContainers_def execDocker_def)
  have b: "exitCode r \<noteq> 0 \<longrightarrow> parse_listing r = []"
    by (simp add: parse_listing_def)
  have c: "\<forall>c \<in> set (parse_listing r).
          c_projectId c \<noteq> [] \<and> c_buildId c \<noteq> []
          \<and> (\<exists>line \<in> set (split_on CHR 0x0A (stdout r)).
                3 \<le> length (split_ws line) \<and> c_containerName c = split_ws line ! 0
                \<and> c_projectId c = split_ws line ! 1 \<and> c_buildId c = split_ws line ! 2)"
    using parse_listing_entry [of _ r] parse_container_line_Some by blast
  have d: "\<forall>line. length (split_ws line) < 3 \<longrightarrow> parse_container_line line = None"
    by (simp add: parse_container_line_short)
  have e: "spawn_cmds (trace (recoverLogStreams env w)) =
         spawn_cmds (trace w)
           @ map (\<lambda>c. [''logs'', ''-f'', ''--tail'', ''0'', getContainerName (c_projectId c)])
               (parse_listing (execResult env (trace w) listArgs))"
    by (simp add: recoverLogStreams_def listRunningContainers_def execDocker_def
          spawn_cmds_fold_start emit_def spawn_cmds_append)
       (simp add: spawn_cmds_def map_filter_simps)
  have f: "\<forall>q. logStreamers (recoverLogStreams env w) q \<noteq> logStreamers w q \<longrightarrow>
            q \<in> c_projectId ` set (parse_listing (execResult env (trace w) listArgs))"
    using logStreamers_fold_start_other
    by (fastforce simp: recoverLogStreams_def listRunningContainers_def execDocker_def emit_def)
  from a b c d e f show ?thesis by blast
qed

theorem listing_keeps_labelled_only_witness:
  "exitCode \<lparr>exitCode = 1, stdout = ''thakur-a p1 b1'', stderr = []\<rparr> \<noteq> 0
   \<and> parse_listing \<lparr>exitCode = 1, stdout = ''thakur-a p1 b1'', stderr = []\<rparr> = []
   \<and> execResult listing_env [] listArgs
       = \<lparr>exitCode = 0, stdout = ''thakur-a p1 b1\<newline>x  b2\<newline>y p3 \<newline>z p4'', stderr = []\<rparr>
   \<and> parse_listing (execResult listing_env [] listArgs)
       = [\<lparr>c_containerName = ''thakur-a'', c_projectId = ''p1'', c_buildId = ''b1''\<rparr>]
   \<and> length (split_ws ''x  b2'') < 3
   \<and> parse_container_line ''x  b2'' = None
   \<and> split_ws ''y p3 '' = [''y'', ''p3'', []]
   \<and> fst (listRunningContainers listing_env (initial_world Map.empty))
       = [\<lparr>c_containerName = ''thakur-a'', c_projectId = ''p1'', c_buildId = ''b1''\<rparr>]
   \<and> spawn_cmds (trace (recoverLogStreams listing_env (initial_world Map.empty)))
       = [[''logs'', ''-f'', ''--tail'', ''0'', ''thakur-p1'']]"
proof -
  have r: "execResult listing_env [] listArgs
       = \<lparr>exitCode = 0, stdout = ''thakur-a p1 b1\<newline>x  b2\<newline>y p3 \<newline>z p4'', stderr = []\<rparr>"
    by (simp add: execResult_def listing_env_def quiet_env_def exit_code_def stdout_text_def
          stderr_text_def trim_def is_space_def Let_def)
  have p: "parse_listing
             \<lparr>exitCode = 0, stdout = ''thakur-a p1 b1\<newline>x  b2\<newline>y p3 \<newline>z p4'', stderr = []\<rparr>
       = [\<lparr>c_containerName = ''thakur-a'', c_projectId = ''p1'', c_buildId = ''b1''\<rparr>]"
    by (simp add: parse_listing_def map_filter_simps parse_container_line_def split_ws_def
          is_space_def)
  have t: "trace (initial_world Map.empty) = []" by (simp add: initial_world_def)
  show ?thesis
    using listing_keeps_labelled_only
            [of listing_env "initial_world Map.empty"
                "\<lparr>exitCode = 1, stdout = ''thakur-a p1 b1'', stderr = []\<rparr>"]
    by (simp add: r p t parse_listing_def parse_container_line_def split_ws_def is_space_def
          spawn_cmds_def map_filter_simps getContainerName_def)
qed

subsection \<open>The recipe file after a build\<close>

lemmas world_eval =
  initial_world_def quiet_env_def emit_def existsSync_def readFileSync_def join_path_def
  andThen_def ret_def lift_def callLog_def execDocker_def execDockerWithStream_def
  unlink_quiet_def writeFile_def logStream_def logStream_detached_def
  execResult_def streamResult_def exit_code_def stdout_text_def stderr_text_def lastError_def

text \<open>
  Whenever a build without a log callback returns and removing the recipe file does not
  fault, the recipe file is gone afterwards, whether the builder generated it or found it:
  the local \<open>dockerfileGenerated\<close> takes no part in the decision.
\<close>

lemma buildImage_removes_recipe:
  assumes "buildImage env projectId buildId sourceDir framework internalPort None w = (Inr r, w')"
    and "existsSync w sourceDir"
    and "\<forall>h. \<not> unlinkFault env h (join_path sourceDir ''Dockerfile'')"
  shows "fs w' (join_path sourceDir ''Dockerfile'') = None"
proof -
  define df where "df = join_path sourceDir ''Dockerfile''"
  define args where "args = [''build'', ''-t'', getImageName projectId buildId, sourceDir]"
  from assms(1,2) obtain g w1 where r1: "resolveDockerfile env sourceDir framework internalPort None w = (Inr g, w1)"
    by (auto simp: buildImage_def runBuild_def Let_def andThen_def split: prod.splits sum.splits)
  have f1: "\<exists>c. fs w1 df = Some (File c)"
    using r1 unfolding resolveDockerfile_def df_def Let_def
    by (auto simp: existsSync_def readFileSync_def andThen_def writeFile_def callLog_def emit_def
          split: if_splits option.splits fs_node.splits sum.splits prod.splits)
  obtain result w3 where ex: "execDockerWithStream env args (callLog None) w1 = (result, w3)"
    by (cases "execDockerWithStream env args (callLog None) w1") auto
  then have w3: "w3 = emit (Docker args) w1" using execDockerWithStream_None [of env args w1] by simp
  have "fs (unlink_quiet env df w3) df = None"
    using f1 assms(3) by (auto simp: unlink_quiet_def w3 emit_def df_def)
  moreover have "w' = unlink_quiet env df w3"
    using assms(1,2) r1 ex f1
    by (auto simp: buildImage_def runBuild_def Let_def andThen_def callLog_def args_def df_def w3
          emit_def existsSync_def split: if_splits)
  ultimately show ?thesis unfolding df_def by simp
qed

text \<open>
  C1 fails on the code. A source directory holds a recipe of the user's, already in the
  form the sanitizer writes; the build succeeds; after \<open>buildImage\<close> has returned the
  recipe file no longer exists.
\<close>

theorem buildImage_deletes_user_recipe:
  "fs (initial_world [''/src'' \<mapsto> Dir, ''/src/Dockerfile'' \<mapsto> File ''EXPOSE 3000\<newline>ENV PORT=3000''])
      (join_path ''/src'' ''Dockerfile'')
     = Some (File ''EXPOSE 3000\<newline>ENV PORT=3000'')
   \<and> fst (buildImage quiet_env ''p'' ''b'' ''/src'' Express 3000 None
        (initial_world [''/src'' \<mapsto> Dir, ''/src/Dockerfile'' \<mapsto> File ''EXPOSE 3000\<newline>ENV PORT=3000'']))
     = Inr \<lparr>build_success = True, build_imageName = ''thakur-deploy/p:b'', build_error = None\<rparr>
   \<and> fs (snd (buildImage quiet_env ''p'' ''b'' ''/src'' Express 3000 None
        (initial_world [''/src'' \<mapsto> Dir, ''/src/Dockerfile'' \<mapsto> File ''EXPOSE 3000\<newline>ENV PORT=3000''])))
      (join_path ''/src'' ''Dockerfile'')
     = None"
proof -
  have s: "sanitizeDockerfile ''EXPOSE 3000\<newline>ENV PORT=3000'' 3000 = ''EXPOSE 3000\<newline>ENV PORT=3000''"
    by (simp add: sanitize_eval)
  show ?thesis
    by (simp add: buildImage_def runBuild_def resolveDockerfile_def s world_eval getImageName_def Let_def)
qed

subsection \<open>Steps that leave the log streams alone\<close>

lemma adds_iff: "adds P w w' \<longleftrightarrow> (\<exists>es. trace w' = trace w @ es \<and> list_all P es)"
proof
  assume a: "adds P w w'"
  have "trace w' = take (length (trace w)) (trace w') @ drop (length (trace w)) (trace w')"
    by simp
  with a have "trace w' = trace w @ new_events w w' \<and> list_all P (new_events w w')"
    by (simp add: adds_def extends_trace_def new_events_def)
  then show "\<exists>es. trace w' = trace w @ es \<and> list_all P es" by blast
next
  assume "\<exists>es. trace w' = trace w @ es \<and> list_all P es"
  then show "adds P w w'" by (auto simp: adds_def extends_trace_def new_events_def)
qed

lemma adds_refl: "adds P w w"
  by (simp add: adds_iff)

lemma adds_trans: "adds P w w' \<Longrightarrow> adds P w' w'' \<Longrightarrow> adds P w w''"
  by (auto simp: adds_iff)

lemma adds_emit: "P e \<Longrightarrow> adds P w (emit e w)"
  by (simp add: adds_iff emit_def)

lemma adds_mono: "adds P w w' \<Longrightarrow> (\<And>e. P e \<Longrightarrow> Q e) \<Longrightarrow> adds Q w w'"
  by (auto simp: adds_iff list_all_iff)

lemma calm_refl: "calm D W w w"
  by (simp add: calm_def adds_refl)

lemma calm_trans: "calm D W w w' \<Longrightarrow> calm D W w' w'' \<Longrightarrow> calm D W w w''"
  using adds_trans by (fastforce simp: calm_def)

lemma inert_calm: "inert D W w w' \<Longrightarrow> calm D W w w'"
  by (simp add: inert_def)

lemma inert_refl: "inert D W w w"
  by (simp add: inert_def calm_refl)

lemma inert_trans: "inert D W w w' \<Longrightarrow> inert D W w' w'' \<Longrightarrow> inert D W w w''"
  using calm_trans by (fastforce simp: inert_def)

lemma inert_emit: "plain_event D W e \<Longrightarrow> inert D W w (emit e w)"
  by (simp add: inert_def calm_def adds_emit) (simp add: emit_def)

lemma inert_same_trace:
  "trace w' = trace w \<Longrightarrow> logStreamers w' = logStreamers w \<Longrightarrow> killed w' = killed w
     \<Longrightarrow> nextPid w' = nextPid w \<Longrightarrow> now w' = now w \<Longrightarrow> inert D W w w'"
  by (simp add: inert_def calm_def adds_iff)

lemma inert_adds: "inert D W w w' \<Longrightarrow> (\<And>e. plain_event D W e \<Longrightarrow> P e) \<Longrightarrow> adds P w w'"
  using adds_mono by (fastforce simp: inert_def calm_def)

lemma inert_now: "inert D W w w' \<Longrightarrow> now w' = now w"
  by (simp add: inert_def)

lemma nonrun_cmd: "nonrun D \<Longrightarrow> take 1 args \<noteq> [''run''] \<Longrightarrow> D args"
  by (simp add: nonrun_def)

lemma keeps_snd: "keeps D W m \<Longrightarrow> inert D W w (snd (m w))"
  by (simp add: keeps_def)

lemma keeps_ret: "keeps D W (ret a)"
  by (simp add: keeps_def ret_def inert_refl)

lemma keeps_andThen:
  assumes "keeps D W m" and "\<And>a. keeps D W (f a)"
  shows "keeps D W (andThen m f)"
  unfolding keeps_def
proof
  fix w
  obtain r w' where m: "m w = (r, w')" by (cases "m w") auto
  have 1: "inert D W w w'" using keeps_snd [OF assms(1), of w] m by simp
  show "inert D W w (snd (andThen m f w))"
  proof (cases r)
    case (Inl e)
    with m 1 show ?thesis by (simp add: andThen_def)
  next
    case (Inr a)
    have "inert D W w' (snd (f a w'))" using assms(2) [of a] by (simp add: keeps_def)
    with 1 have "inert D W w (snd (f a w'))" by (rule inert_trans)
    with m Inr show ?thesis by (simp add: andThen_def)
  qed
qed

lemma keeps_lift: "keeps D W m \<Longrightarrow> keeps D W (lift m)"
  by (simp add: keeps_def lift_def split: prod.splits) (metis snd_conv)

lemma keeps_execDocker: "D args \<Longrightarrow> keeps D W (execDocker env args)"
  by (simp add: keeps_def execDocker_def inert_emit plain_event_def)

lemma keeps_logStream: "keeps D W (logStream env buildId message level)"
  by (simp add: keeps_def logStream_def inert_emit plain_event_def split: option.splits)

lemma keeps_writeFile: "W path content \<Longrightarrow> keeps D W (writeFile env path content)"
proof -
  assume w: "W path content"
  have "\<And>w. inert D W w (emit (WriteFile path content) (w\<lparr>fs := (fs w)(path \<mapsto> File content)\<rparr>))"
  proof -
    fix w
    have 1: "inert D W w (w\<lparr>fs := (fs w)(path \<mapsto> File content)\<rparr>)"
      by (rule inert_same_trace) simp_all
    have 2: "inert D W (w\<lparr>fs := (fs w)(path \<mapsto> File content)\<rparr>)
               (emit (WriteFile path content) (w\<lparr>fs := (fs w)(path \<mapsto> File content)\<rparr>))"
      using w by (intro inert_emit) (simp add: plain_event_def)
    from 1 2 show "inert D W w (emit (WriteFile path content) (w\<lparr>fs := (fs w)(path \<mapsto> File content)\<rparr>))"
      by (rule inert_trans)
  qed
  then show ?thesis
    by (simp add: keeps_def writeFile_def inert_refl split: option.splits)
qed

lemma inert_unlink_quiet: "inert D W w (unlink_quiet env path w)"
proof -
  have 1: "inert D W w (w\<lparr>fs := (fs w)(path := None)\<rparr>)"
    by (rule inert_same_trace) simp_all
  have 2: "\<And>v. inert D W v (emit (Unlink path) v)"
    by (intro inert_emit) (simp add: plain_event_def)
  show ?thesis
    using 2 [of w] inert_trans [OF 1 2] by (simp add: unlink_quiet_def)
qed

lemma inert_detached: "inert D W w (logStream_detached env buildId level message w)"
  by (simp add: logStream_detached_def inert_emit plain_event_def)

lemma keeps_containerExists:
  "D [''container'', ''inspect'', n] \<Longrightarrow> keeps D W (containerExists env n)"
  using keeps_snd [OF keeps_execDocker]
  by (simp add: keeps_def containerExists_def split: prod.splits) (metis snd_conv)

lemma keeps_stopContainer:
  "D [''stop'', ''-t'', show_nat t, n] \<Longrightarrow> keeps D W (stopContainer env n t)"
  using keeps_snd [OF keeps_execDocker]
  by (simp add: keeps_def stopContainer_def split: prod.splits) (metis snd_conv)

lemma keeps_removeContainer:
  "D [''rm'', ''-f'', n] \<Longrightarrow> D [''rm'', n] \<Longrightarrow> keeps D W (removeContainer env n force)"
  using keeps_snd [OF keeps_execDocker]
  by (simp add: keeps_def removeContainer_def split: prod.splits) (metis snd_conv)

lemma keeps_stopAndRemoveContainer:
  assumes "nonrun D"
  shows "keeps D W (stopAndRemoveContainer env n)"
  unfolding keeps_def
proof
  fix w
  have d1: "D [''stop'', ''-t'', show_nat 10, n]" and d2: "D [''rm'', ''-f'', n]" and d3: "D [''rm'', n]"
    using assms by (simp_all add: nonrun_def)
  obtain b w1 where s: "stopContainer env n 10 w = (b, w1)" by (cases "stopContainer env n 10 w") auto
  have k1: "keeps D W (stopContainer env n 10)" by (rule keeps_stopContainer) (rule d1)
  have 1: "inert D W w w1" using keeps_snd [OF k1, of w] s by simp
  have k2: "keeps D W (removeContainer env n True)" by (rule keeps_removeContainer) (rule d2, rule d3)
  have 2: "inert D W w1 (snd (removeContainer env n True w1))"
    by (rule keeps_snd [OF k2])
  show "inert D W w (snd (stopAndRemoveContainer env n w))"
    using inert_trans [OF 1 2] s by (simp add: stopAndRemoveContainer_def)
qed

lemma keeps_ensureContainerStopped:
  assumes "nonrun D"
  shows "keeps D W (ensureContainerStopped env p)"
  unfolding keeps_def
proof
  fix w
  have d: "D [''container'', ''inspect'', getContainerName p]"
    using assms by (simp add: nonrun_def)
  obtain b w1 where s: "containerExists env (getContainerName p) w = (b, w1)"
    by (cases "containerExists env (getContainerName p) w") auto
  have k1: "keeps D W (containerExists env (getContainerName p))"
    by (rule keeps_containerExists) (rule d)
  have 1: "inert D W w w1" using keeps_snd [OF k1, of w] s by simp
  have 2: "inert D W w1 (snd (stopAndRemoveContainer env (getContainerName p) w1))"
    by (rule keeps_snd [OF keeps_stopAndRemoveContainer [OF assms]])
  show "inert D W w (snd (ensureContainerStopped env p w))"
    using inert_trans [OF 1 2] 1 s by (simp add: ensureContainerStopped_def Let_def)
qed

lemma keeps_getContainerLogs: "nonrun D \<Longrightarrow> keeps D W (getContainerLogs env n t)"
  using keeps_snd [OF keeps_execDocker [of D "[''logs'', ''--tail'', show_nat t, n]"]]
  by (simp add: keeps_def getContainerLogs_def nonrun_def split: prod.splits) (metis snd_conv)

lemma keeps_runContainer: "D (runArgs config) \<Longrightarrow> keeps D W (runContainer env config)"
  using keeps_snd [OF keeps_execDocker]
  by (simp add: keeps_def runContainer_def split: prod.splits) (metis snd_conv)

lemma keeps_removeImage: "nonrun D \<Longrightarrow> keeps D W (removeImage env n)"
  using keeps_snd [OF keeps_execDocker [of D "[''rmi'', ''-f'', n]"]]
  by (simp add: keeps_def removeImage_def nonrun_def split: prod.splits) (metis snd_conv)

lemma inert_removeImages: "nonrun D \<Longrightarrow> inert D W w (removeImages env ns w)"
proof (induction ns arbitrary: w)
  case Nil
  then show ?case by (simp add: inert_refl)
next
  case (Cons n ns)
  have "inert D W w (snd (removeImage env n w))"
    by (rule keeps_snd [OF keeps_removeImage [OF Cons.prems]])
  from inert_trans [OF this Cons.IH [OF Cons.prems]] show ?case by simp
qed

lemma imagesArgs_nonrun: "take 1 (imagesArgs p) \<noteq> [''run'']"
  by (simp add: imagesArgs_def Let_def)

lemma inert_prune:
  assumes "nonrun D"
  shows "inert D W w (pruneProjectImages env p k w)"
proof -
  have d: "D (imagesArgs p)" using assms imagesArgs_nonrun by (simp add: nonrun_def)
  obtain r w1 where s: "execDocker env (imagesArgs p) w = (r, w1)"
    by (cases "execDocker env (imagesArgs p) w") auto
  have k1: "keeps D W (execDocker env (imagesArgs p))" by (rule keeps_execDocker) (rule d)
  have 1: "inert D W w w1" using keeps_snd [OF k1, of w] s by simp
  show ?thesis
    using 1 inert_trans [OF 1 inert_removeImages [OF assms]] s
    by (simp add: pruneProjectImages_def Let_def)
qed

lemma inert_callLog: "quiet_log D W onLog \<Longrightarrow> inert D W w (callLog onLog m w)"
  by (cases onLog) (simp_all add: quiet_log_def callLog_def inert_refl)

lemma inert_fold_callLog:
  "quiet_log D W onLog \<Longrightarrow> inert D W w (fold (callLog onLog) ls w)"
proof (induction ls arbitrary: w)
  case Nil
  then show ?case by (simp add: inert_refl)
next
  case (Cons l ls)
  have "inert D W w (callLog onLog l w)" using Cons.prems by (rule inert_callLog)
  from inert_trans [OF this Cons.IH [OF Cons.prems]] show ?case by simp
qed

lemma keeps_execDockerWithStream:
  "quiet_log D W onLog \<Longrightarrow> D args \<Longrightarrow> keeps D W (execDockerWithStream env args (callLog onLog))"
  unfolding keeps_def
proof
  fix w assume q: "quiet_log D W onLog" and d: "D args"
  have "inert D W w (emit (Docker args) w)" using d by (simp add: inert_emit plain_event_def)
  from inert_trans [OF this inert_fold_callLog [OF q]]
  show "inert D W w (snd (execDockerWithStream env args (callLog onLog) w))"
    by (simp add: execDockerWithStream_def split: prod.splits)
qed

lemma keeps_log_result: "quiet_log D W onLog \<Longrightarrow> keeps D W (\<lambda>w1. (r, callLog onLog m w1))"
  by (simp add: keeps_def inert_callLog)

lemma keeps_resolveDockerfile:
  assumes "quiet_log D W onLog"
    and "\<And>c. W (join_path sourceDir ''Dockerfile'') (sanitizeDockerfile c internalPort)"
    and "\<And>e. W (join_path sourceDir ''Dockerfile'') (getDockerfileContent framework internalPort e)"
  shows "keeps D W (resolveDockerfile env sourceDir framework internalPort onLog)"
  unfolding keeps_def
proof
  fix w
  let ?df = "join_path sourceDir ''Dockerfile''"
  have wr: "\<And>c (r :: string + bool) m wa. W ?df c \<Longrightarrow> inert D W wa
              (snd (andThen (writeFile env ?df c) (\<lambda>u w1. (r, callLog onLog m w1)) wa))"
    using keeps_snd [OF keeps_andThen [OF keeps_writeFile keeps_log_result [OF assms(1)]]] by simp
  have lg: "\<And>m wa. inert D W wa (callLog onLog m wa)"
    using assms(1) by (rule inert_callLog)
  show "inert D W w (snd (resolveDockerfile env sourceDir framework internalPort onLog w))"
  proof (cases "existsSync w ?df")
    case True
    show ?thesis
    proof (cases "readFileSync w ?df")
      case (Inl e)
      with True show ?thesis by (simp add: resolveDockerfile_def Let_def inert_refl)
    next
      case (Inr c)
      with True wr [OF assms(2)] lg show ?thesis by (simp add: resolveDockerfile_def Let_def)
    qed
  next
    case False
    have gen: "\<And>c (r :: string + bool) m w0. W ?df c \<Longrightarrow> inert D W w w0 \<Longrightarrow>
              inert D W w (snd (andThen (writeFile env ?df c) (\<lambda>u w1. (r, callLog onLog m w1)) w0))"
      using inert_trans wr by blast
    show ?thesis
    proof (cases "hasStartScript env w sourceDir")
      case True
      with False gen [OF assms(3) inert_refl] show ?thesis
        by (simp add: resolveDockerfile_def Let_def)
    next
      case ns: False
      show ?thesis
      proof (cases "detectEntryFile w sourceDir")
        case None
        with False ns gen [OF assms(3) lg] show ?thesis by (simp add: resolveDockerfile_def Let_def)
      next
        case (Some e)
        with False ns gen [OF assms(3) lg] show ?thesis by (simp add: resolveDockerfile_def Let_def)
      qed
    qed
  qed
qed

lemma keeps_runBuild:
  assumes "quiet_log D W onLog" and "nonrun D"
  shows "keeps D W (runBuild env imageName sourceDir onLog)"
  unfolding keeps_def
proof
  fix w1
  let ?df = "join_path sourceDir ''Dockerfile''"
  let ?args = "[''build'', ''-t'', imageName, sourceDir]"
  have d: "D ?args" using assms(2) by (simp add: nonrun_def)
  have lg: "\<And>m wa. inert D W wa (callLog onLog m wa)"
    using assms(1) by (rule inert_callLog)
  define w2 where "w2 = callLog onLog (''Building Docker image: '' @ imageName) w1"
  obtain result w3 where ex: "execDockerWithStream env ?args (callLog onLog) w2 = (result, w3)"
    by (cases "execDockerWithStream env ?args (callLog onLog) w2") auto
  define w4 where "w4 = (if existsSync w3 ?df then unlink_quiet env ?df w3 else w3)"
  have 12: "inert D W w1 w2" unfolding w2_def by (rule lg)
  have k: "keeps D W (execDockerWithStream env ?args (callLog onLog))"
    by (rule keeps_execDockerWithStream) (rule assms(1), rule d)
  have 23: "inert D W w2 w3" using keeps_snd [OF k, of w2] ex by simp
  have 34: "inert D W w3 w4"
    unfolding w4_def by (simp add: inert_refl inert_unlink_quiet)
  have 14: "inert D W w1 w4" using 12 23 34 inert_trans by blast
  have 15: "inert D W w1 (callLog onLog (''Image built successfully: '' @ imageName) w4)"
    using 14 lg inert_trans by blast
  show "inert D W w1 (snd (runBuild env imageName sourceDir onLog w1))"
    using 14 15 ex unfolding runBuild_def Let_def w2_def [symmetric] by (simp add: w4_def)
qed

lemma keeps_buildImage:
  assumes "quiet_log D W onLog" and "nonrun D"
    and "\<And>c. W (join_path sourceDir ''Dockerfile'') (sanitizeDockerfile c internalPort)"
    and "\<And>e. W (join_path sourceDir ''Dockerfile'') (getDockerfileContent framework internalPort e)"
  shows "keeps D W (buildImage env projectId buildId sourceDir framework internalPort onLog)"
proof -
  have "keeps D W (andThen (resolveDockerfile env sourceDir framework internalPort onLog)
                 (\<lambda>dockerfileGenerated. runBuild env (getImageName projectId buildId) sourceDir onLog))"
    by (rule keeps_andThen [OF keeps_resolveDockerfile [OF assms(1,3,4)] keeps_runBuild [OF assms(1,2)]])
  then show ?thesis
    unfolding keeps_def buildImage_def Let_def by (simp add: inert_refl)
qed

lemma quiet_log_detached: "quiet_log D W (Some (logStream_detached env buildId level))"
  by (simp add: quiet_log_def inert_detached)

lemma calm_wait_loop: "calm D W w (snd (wait_loop env port timeoutMs start w))"
proof (induction env port timeoutMs start w rule: wait_loop.induct)
  case (1 env port timeoutMs start w)
  have f: "\<And>v. calm D W v (emit (Fetch (now w) port) v)"
    by (rule inert_calm) (simp add: inert_emit plain_event_def)
  show ?case
  proof (cases "now w - start < timeoutMs")
    case False
    then show ?thesis by (subst wait_loop.simps) (simp add: calm_refl)
  next
    case True
    show ?thesis
    proof (cases "httpGet env (now w) port")
      case None
      with True f [of w] show ?thesis by (subst wait_loop.simps) simp
    next
      case (Some a)
      obtain res took where a: "a = (res, took)" by (cases a) auto
      define w1 where "w1 = emit (Fetch (now w) port) (w\<lparr>now := now w + took\<rparr>)"
      have s0: "calm D W w (w\<lparr>now := now w + took\<rparr>)" by (simp add: calm_def adds_iff)
      have s1: "calm D W w w1" unfolding w1_def using s0 f calm_trans by blast
      show ?thesis
      proof (cases "healthy_response res")
        case h: True
        then show ?thesis using True Some a s1 by (subst wait_loop.simps) (simp add: Let_def w1_def)
      next
        case nh: False
        have s2: "calm D W w1 (w1\<lparr>now := now w1 + 500\<rparr>)" by (simp add: calm_def adds_iff)
        have "calm D W (w1\<lparr>now := now w1 + 500\<rparr>)
                (snd (wait_loop env port timeoutMs start (w1\<lparr>now := now w1 + 500\<rparr>)))"
          using "1.IH" [OF True Some a [symmetric] w1_def nh] .
        with s1 s2 have "calm D W w (snd (wait_loop env port timeoutMs start (w1\<lparr>now := now w1 + 500\<rparr>)))"
          using calm_trans by blast
        then show ?thesis using True Some a nh by (subst wait_loop.simps) (simp add: Let_def w1_def)
      qed
    qed
  qed
qed

lemma calm_waitForHealthy: "calm D W w (snd (waitForHealthy env port timeoutMs w))"
  by (simp add: waitForHealthy_def calm_wait_loop)

subsection \<open>The history of the registry\<close>

lemma registry_after_snoc:
  "registry_after (tr @ [e]) =
     (case e of
        Register p h \<Rightarrow> (registry_after tr)(p \<mapsto> h)
      | Unregister p \<Rightarrow> (registry_after tr)(p := None)
      | _ \<Rightarrow> registry_after tr)"
  unfolding registry_after_def by (cases e) simp_all

lemma cancelled_snoc:
  "cancelled (tr @ [e]) = cancelled tr @ (case e of Kill h \<Rightarrow> [h] | _ \<Rightarrow> [])"
  by (cases e) (simp_all add: cancelled_def map_filter_def)

lemma registered_snoc:
  "registered p (tr @ [e]) =
     registered p tr @ (case e of Register q h \<Rightarrow> if q = p then [h] else [] | _ \<Rightarrow> [])"
  by (cases e) (simp_all add: registered_def map_filter_def)

lemma orderly_snoc: "orderly (tr @ [e]) \<longleftrightarrow> orderly tr \<and> event_ok tr e"
  by (auto simp: orderly_def list_all_iff nth_append less_Suc_eq)

lemma orderly_Nil: "orderly []"
  by (simp add: orderly_def)

lemma orderly_prefix: "orderly (tr @ es) \<Longrightarrow> orderly tr"
proof (induction es rule: rev_induct)
  case Nil
  then show ?case by simp
next
  case (snoc e es)
  then show ?case using orderly_snoc [of "tr @ es" e] by simp
qed

lemma orderly_take: "orderly tr \<Longrightarrow> orderly (take n tr)"
  using orderly_prefix [of "take n tr" "drop n tr"] by simp

lemma plain_event_cases:
  "plain_event D W e \<Longrightarrow>
     (\<forall>h. e \<noteq> Kill h) \<and> (\<forall>p h. e \<noteq> Register p h) \<and> (\<forall>p. e \<noteq> Unregister p)"
  by (cases e) (simp_all add: plain_event_def)

lemma history_plain:
  "list_all (plain_event D W) es \<Longrightarrow>
     registry_after (tr @ es) = registry_after tr \<and> cancelled (tr @ es) = cancelled tr
     \<and> (orderly tr \<longrightarrow> orderly (tr @ es))"
proof (induction es rule: rev_induct)
  case Nil
  then show ?case by simp
next
  case (snoc e es)
  then have p: "plain_event D W e" and ih: "registry_after (tr @ es) = registry_after tr"
    "cancelled (tr @ es) = cancelled tr" "orderly tr \<longrightarrow> orderly (tr @ es)"
    by simp_all
  have a: "registry_after ((tr @ es) @ [e]) = registry_after (tr @ es)"
    using p registry_after_snoc [of "tr @ es" e] by (cases e) (simp_all add: plain_event_def)
  have b: "cancelled ((tr @ es) @ [e]) = cancelled (tr @ es)"
    using p cancelled_snoc [of "tr @ es" e] by (cases e) (simp_all add: plain_event_def)
  have c: "event_ok (tr @ es) e"
    using p by (cases e) (simp_all add: event_ok_def plain_event_def)
  show ?case using a b c ih orderly_snoc [of "tr @ es" e] by simp
qed

lemma registry_ok_same:
  "logStreamers w' = logStreamers w \<Longrightarrow> killed w' = killed w \<Longrightarrow> nextPid w' = nextPid w
     \<Longrightarrow> registry_ok w \<Longrightarrow> registry_ok w'"
  by (simp add: registry_ok_def)

lemma calm_inv:
  assumes "calm D W w w'" and "registry_inv w"
  shows "registry_inv w'"
proof -
  from assms(1) obtain es where es: "trace w' = trace w @ es" and p: "list_all (plain_event D W) es"
    by (auto simp: calm_def adds_iff)
  from assms(1) have f: "logStreamers w' = logStreamers w" "killed w' = killed w" "nextPid w' = nextPid w"
    by (simp_all add: calm_def)
  from assms(2) have ok: "registry_ok w" and t: "tracked w" and o: "orderly (trace w)"
    by (simp_all add: registry_inv_def)
  have "registry_ok w'" using f ok by (rule registry_ok_same)
  moreover have "tracked w'" using t f history_plain [OF p, of "trace w"] by (simp add: tracked_def es)
  moreover have "orderly (trace w')" using o history_plain [OF p, of "trace w"] by (simp add: es)
  ultimately show ?thesis by (simp add: registry_inv_def)
qed

lemma inert_inv: "inert D W w w' \<Longrightarrow> registry_inv w \<Longrightarrow> registry_inv w'"
  using calm_inv inert_calm by blast

lemma orderly_active:
  "orderly tr \<Longrightarrow> h \<in> set (registered p tr) \<Longrightarrow> h \<notin> set (cancelled tr)
     \<Longrightarrow> registry_after tr p = Some h"
proof (induction tr rule: rev_induct)
  case Nil
  then show ?case by (simp add: registered_def map_filter_simps)
next
  case (snoc e tr)
  from snoc.prems(1) have o: "orderly tr" and ok: "event_ok tr e"
    by (simp_all add: orderly_snoc)
  have nc: "h \<notin> set (cancelled tr)" using snoc.prems(3) by (simp add: cancelled_snoc)
  show ?case
  proof (cases e)
    case (Register q h')
    show ?thesis
    proof (cases "q = p")
      case True
      from ok Register True have all: "\<forall>old \<in> set (registered p tr). old \<in> set (cancelled tr)"
        by (simp add: event_ok_def list_all_iff)
      from snoc.prems(2) Register True have "h = h' \<or> h \<in> set (registered p tr)"
        by (auto simp: registered_snoc)
      with all nc have "h = h'" by blast
      with Register True show ?thesis by (simp add: registry_after_snoc)
    next
      case False
      with snoc.prems(2) Register have "h \<in> set (registered p tr)" by (simp add: registered_snoc)
      from snoc.IH [OF o this nc] Register False show ?thesis by (simp add: registry_after_snoc)
    qed
  next
    case (Unregister q)
    from snoc.prems(2) Unregister have r: "h \<in> set (registered p tr)" by (simp add: registered_snoc)
    from snoc.IH [OF o r nc] have s: "registry_after tr p = Some h" .
    show ?thesis
    proof (cases "q = p")
      case True
      with ok Unregister s have "h \<in> set (cancelled tr)" by (simp add: event_ok_def)
      with nc show ?thesis by simp
    next
      case False
      with s Unregister show ?thesis by (simp add: registry_after_snoc)
    qed
  next
    case (Kill k)
    from snoc.prems(2) Kill have r: "h \<in> set (registered p tr)" by (simp add: registered_snoc)
    from snoc.IH [OF o r nc] Kill show ?thesis by (simp add: registry_after_snoc)
  next
    case (Docker a)
    from snoc.prems(2) Docker have r: "h \<in> set (registered p tr)" by (simp add: registered_snoc)
    from snoc.IH [OF o r nc] Docker show ?thesis by (simp add: registry_after_snoc)
  next
    case (LogStream a b c)
    from snoc.prems(2) LogStream have r: "h \<in> set (registered p tr)" by (simp add: registered_snoc)
    from snoc.IH [OF o r nc] LogStream show ?thesis by (simp add: registry_after_snoc)
  next
    case (WriteFile a b)
    from snoc.prems(2) WriteFile have r: "h \<in> set (registered p tr)" by (simp add: registered_snoc)
    from snoc.IH [OF o r nc] WriteFile show ?thesis by (simp add: registry_after_snoc)
  next
    case (Unlink a)
    from snoc.prems(2) Unlink have r: "h \<in> set (registered p tr)" by (simp add: registered_snoc)
    from snoc.IH [OF o r nc] Unlink show ?thesis by (simp add: registry_after_snoc)
  next
    case (Spawn a b)
    from snoc.prems(2) Spawn have r: "h \<in> set (registered p tr)" by (simp add: registered_snoc)
    from snoc.IH [OF o r nc] Spawn show ?thesis by (simp add: registry_after_snoc)
  next
    case (Fetch a b)
    from snoc.prems(2) Fetch have r: "h \<in> set (registered p tr)" by (simp add: registered_snoc)
    from snoc.IH [OF o r nc] Fetch show ?thesis by (simp add: registry_after_snoc)
  qed
qed

lemma distinct_all_equal: "distinct xs \<Longrightarrow> \<forall>x \<in> set xs. x = a \<Longrightarrow> length xs \<le> 1"
proof (cases xs)
  case Nil
  then show ?thesis by simp
next
  case (Cons x ys)
  assume d: "distinct xs" and e: "\<forall>x \<in> set xs. x = a"
  have "ys = []"
  proof (cases ys)
    case Nil
    then show ?thesis .
  next
    case (Cons y zs)
    with \<open>xs = x # ys\<close> d e show ?thesis by auto
  qed
  with Cons show ?thesis by simp
qed

lemma orderly_one_active: "orderly tr \<Longrightarrow> length (active p (take n tr)) \<le> 1"
proof -
  assume "orderly tr"
  then have o: "orderly (take n tr)" by (rule orderly_take)
  show ?thesis
  proof (cases "registry_after (take n tr) p")
    case None
    have "active p (take n tr) = []"
      using orderly_active [OF o, of _ p] None by (auto simp: active_def filter_empty_conv)
    then show ?thesis by simp
  next
    case (Some a)
    have "\<forall>x \<in> set (active p (take n tr)). x = a"
      using orderly_active [OF o, of _ p] Some by (auto simp: active_def)
    moreover have "distinct (active p (take n tr))" by (simp add: active_def)
    ultimately show ?thesis by (rule distinct_all_equal [rotated])
  qed
qed

subsection \<open>Operations on the registry\<close>

lemma inv_stopLogStreaming:
  assumes "registry_inv w"
  shows "registry_inv (stopLogStreaming p w)"
proof (cases "logStreamers w p")
  case None
  with assms show ?thesis by (simp add: stopLogStreaming_def)
next
  case (Some h)
  from assms have r: "registry_ok w" and t: "tracked w" and o: "orderly (trace w)"
    by (simp_all add: registry_inv_def)
  have w': "stopLogStreaming p w
      = w\<lparr>trace := trace w @ [Kill h, Unregister p], killed := insert h (killed w),
           logStreamers := (logStreamers w)(p := None)\<rparr>"
    using Some by (simp add: stopLogStreaming_def cancelStream_def emit_def Let_def)
  have ra: "registry_after (trace w) p = Some h" using t Some by (simp add: tracked_def)
  have tr2: "trace w @ [Kill h, Unregister p] = (trace w @ [Kill h]) @ [Unregister p]" by simp
  have hp: "h < nextPid w" using r Some unfolding registry_ok_def by blast
  have inj: "\<And>q. q \<noteq> p \<Longrightarrow> logStreamers w q \<noteq> Some h"
    using r Some unfolding registry_ok_def by blast
  have ok: "registry_ok (stopLogStreaming p w)"
    unfolding w' registry_ok_def using r hp inj by (auto simp: registry_ok_def)
  have tk: "tracked (stopLogStreaming p w)"
    using t unfolding w' tracked_def
    by (simp add: tr2 registry_after_snoc cancelled_snoc del: append_assoc append.simps)
  have "event_ok (trace w @ [Kill h]) (Unregister p)"
    using ra by (simp add: event_ok_def registry_after_snoc cancelled_snoc)
  moreover have "event_ok (trace w) (Kill h)" by (simp add: event_ok_def)
  ultimately have od: "orderly (trace (stopLogStreaming p w))"
    using o unfolding w' by (simp add: tr2 orderly_snoc del: append_assoc append.simps)
  from ok tk od show ?thesis by (simp add: registry_inv_def)
qed

lemma stopLogStreaming_clears: "logStreamers (stopLogStreaming p w) p = None"
  by (simp add: stopLogStreaming_def cancelStream_def emit_def Let_def split: option.splits)

lemma inv_spawn_store:
  assumes "registry_inv w1" and "logStreamers w1 p = None"
  shows "registry_inv
           (case streamContainerLogs n w1 of
              (proc, w2) \<Rightarrow>
                emit (Register p proc) (w2\<lparr>logStreamers := (logStreamers w2)(p \<mapsto> proc)\<rparr>))"
proof -
  let ?sp = "Spawn (nextPid w1) [''logs'', ''-f'', ''--tail'', ''0'', n]"
  let ?w' = "w1\<lparr>nextPid := Suc (nextPid w1),
                 trace := trace w1 @ [?sp, Register p (nextPid w1)],
                 logStreamers := (logStreamers w1)(p \<mapsto> nextPid w1)\<rparr>"
  have w': "(case streamContainerLogs n w1 of
              (proc, w2) \<Rightarrow>
                emit (Register p proc) (w2\<lparr>logStreamers := (logStreamers w2)(p \<mapsto> proc)\<rparr>)) = ?w'"
    by (simp add: streamContainerLogs_def emit_def)
  from assms(1) have r: "registry_ok w1" and t: "tracked w1" and o: "orderly (trace w1)"
    by (simp_all add: registry_inv_def)
  have a: "\<And>q h. logStreamers w1 q = Some h \<Longrightarrow> h < nextPid w1 \<and> h \<notin> killed w1"
    using r unfolding registry_ok_def by blast
  have b: "\<And>q q' h. logStreamers w1 q = Some h \<Longrightarrow> logStreamers w1 q' = Some h \<Longrightarrow> q = q'"
    using r unfolding registry_ok_def by blast
  have c: "\<And>h. h \<in> killed w1 \<Longrightarrow> h < nextPid w1"
    using r unfolding registry_ok_def by blast
  have c': "nextPid w1 \<notin> killed w1" using c by blast
  have ok: "registry_ok ?w'"
    unfolding registry_ok_def
  proof (intro conjI allI impI ballI)
    fix q h assume "logStreamers ?w' q = Some h"
    then show "h < nextPid ?w'" using a [of q h] by (auto split: if_splits)
  next
    fix q h assume "logStreamers ?w' q = Some h"
    then show "h \<notin> killed ?w'" using a [of q h] c' by (auto split: if_splits)
  next
    fix q q' h assume "logStreamers ?w' q = Some h \<and> logStreamers ?w' q' = Some h"
    then show "q = q'" using a [of q h] a [of q' h] b [of q h q'] by (auto split: if_splits)
  next
    fix h assume "h \<in> killed ?w'"
    then show "h < nextPid ?w'" using c [of h] by auto
  qed
  have tr2: "trace w1 @ [?sp, Register p (nextPid w1)] = (trace w1 @ [?sp]) @ [Register p (nextPid w1)]"
    by simp
  have tk: "tracked ?w'"
    using t unfolding tracked_def
    by (simp add: tr2 registry_after_snoc cancelled_snoc del: append_assoc append.simps)
  have ra: "registry_after (trace w1) p = None" using t assms(2) by (simp add: tracked_def)
  have old: "\<forall>h \<in> set (registered p (trace w1)). h \<in> set (cancelled (trace w1))"
    using orderly_active [OF o, of _ p] ra by auto
  have fresh: "nextPid w1 \<notin> set (cancelled (trace w1))" using c' t by (simp add: tracked_def)
  have "event_ok (trace w1 @ [?sp]) (Register p (nextPid w1))"
    using ra old fresh
    by (simp add: event_ok_def registry_after_snoc cancelled_snoc registered_snoc list_all_iff)
  moreover have "event_ok (trace w1) ?sp" by (simp add: event_ok_def)
  ultimately have od: "orderly (trace ?w')"
    using o by (simp add: tr2 orderly_snoc del: append_assoc append.simps)
  from ok tk od have "registry_inv ?w'" by (simp add: registry_inv_def)
  then show ?thesis unfolding w' .
qed

lemma inv_startLogStreaming: "registry_inv w \<Longrightarrow> registry_inv (startLogStreaming p b w)"
  unfolding startLogStreaming_def Let_def
  by (rule inv_spawn_store) (simp_all add: inv_stopLogStreaming stopLogStreaming_clears)

lemma inv_fold_start:
  "registry_inv w \<Longrightarrow>
     registry_inv (fold (\<lambda>c. startLogStreaming (c_projectId c) (c_buildId c)) cs w)"
  by (induction cs arbitrary: w) (simp_all add: inv_startLogStreaming)

lemma listArgs_nonrun: "take 1 listArgs \<noteq> [''run'']"
  by (simp add: listArgs_def)

lemma keeps_any: "nonrun (\<lambda>args. True)"
  by (simp add: nonrun_def)

lemma inv_recoverLogStreams: "registry_inv w \<Longrightarrow> registry_inv (recoverLogStreams env w)"
proof -
  assume i: "registry_inv w"
  obtain cs w1 where l: "listRunningContainers env w = (cs, w1)"
    by (cases "listRunningContainers env w") auto
  then have w1: "w1 = snd (execDocker env listArgs w)"
    by (auto simp: listRunningContainers_def split: prod.splits)
  have "keeps (\<lambda>args. True) (\<lambda>p c. True) (execDocker env listArgs)"
    by (rule keeps_execDocker) simp
  then have "inert (\<lambda>args. True) (\<lambda>p c. True) w w1" unfolding w1 by (rule keeps_snd)
  then have "registry_inv w1" using i by (rule inert_inv)
  then show ?thesis using l by (simp add: recoverLogStreams_def inv_fold_start)
qed

lemma inv_cleanup: "registry_inv w \<Longrightarrow> registry_inv (cleanup env p ids w)"
proof -
  assume i: "registry_inv w"
  define w1 where "w1 = stopLogStreaming p w"
  define w2 where "w2 = snd (ensureContainerStopped env p w1)"
  have 1: "registry_inv w1" unfolding w1_def using i by (rule inv_stopLogStreaming)
  have "inert (\<lambda>args. True) (\<lambda>p c. True) w1 w2"
    unfolding w2_def by (rule keeps_snd [OF keeps_ensureContainerStopped [OF keeps_any]])
  then have 2: "registry_inv w2" using 1 by (rule inert_inv)
  have 3: "\<And>ns. registry_inv (removeImages env ns w2)"
    using inert_inv [OF inert_removeImages [OF keeps_any] 2] .
  show ?thesis
    using 2 3 by (simp add: cleanup_def Let_def w1_def w2_def split: option.splits)
qed

lemma keeps_steady: "keeps D W m \<Longrightarrow> steady m"
  using inert_inv by (fastforce simp: keeps_def steady_def)

lemma steady_ret: "steady (ret a)"
  by (simp add: steady_def ret_def)

lemma steady_andThen:
  assumes "steady m" and "\<And>a. steady (f a)"
  shows "steady (andThen m f)"
  unfolding steady_def
proof (intro allI impI)
  fix w assume i: "registry_inv w"
  obtain r w' where m: "m w = (r, w')" by (cases "m w") auto
  have 1: "registry_inv w'" using assms(1) m i by (auto simp: steady_def dest: spec [of _ w])
  show "registry_inv (snd (andThen m f w))"
  proof (cases r)
    case (Inl e)
    with m 1 show ?thesis by (simp add: andThen_def)
  next
    case (Inr a)
    have "registry_inv (snd (f a w'))" using assms(2) [of a] 1 by (simp add: steady_def)
    with m Inr show ?thesis by (simp add: andThen_def)
  qed
qed

lemma steady_lift: "steady m \<Longrightarrow> steady (lift m)"
  by (simp add: steady_def lift_def split: prod.splits) (metis snd_conv)

lemma steady_if: "steady a \<Longrightarrow> steady b \<Longrightarrow> steady (if c then a else b)"
  by simp

lemma steady_settled: "steady m \<Longrightarrow> steady (settled m)"
  by (simp add: steady_def settled_def split: prod.splits) (metis snd_conv)

lemma steady_pending: "steady m \<Longrightarrow> steady (pending m)"
  by (simp add: steady_def pending_def split: prod.splits) (metis snd_conv)

lemma steady_thenTask:
  assumes "steady m" and "\<And>a. steady (f a)"
  shows "steady (thenTask m f)"
  unfolding steady_def
proof (intro allI impI)
  fix w assume i: "registry_inv w"
  obtain r w' where m: "m w = (r, w')" by (cases "m w") auto
  have 1: "registry_inv w'" using assms(1) m i by (auto simp: steady_def dest: spec [of _ w])
  show "registry_inv (snd (thenTask m f w))"
  proof (cases r)
    case None
    with m 1 show ?thesis by (simp add: thenTask_def)
  next
    case (Some x)
    show ?thesis
    proof (cases x)
      case (Inl e)
      with Some m 1 show ?thesis by (simp add: thenTask_def)
    next
      case (Inr a)
      have "registry_inv (snd (f a w'))" using assms(2) [of a] 1 by (simp add: steady_def)
      with m Some Inr show ?thesis by (simp add: thenTask_def)
    qed
  qed
qed

lemma steady_unit: "(\<And>w. registry_inv w \<Longrightarrow> registry_inv (f w)) \<Longrightarrow> steady (\<lambda>w. ((), f w))"
  by (simp add: steady_def)

lemma steady_waitForHealthy: "steady (waitForHealthy env port timeoutMs)"
  using calm_inv [OF calm_waitForHealthy] by (simp add: steady_def)

lemma runArgs_any: "(\<lambda>args. True) (runArgs config)"
  by simp

lemmas steady_steps =
  keeps_steady [OF keeps_logStream]
  keeps_steady [OF keeps_ensureContainerStopped [OF keeps_any]]
  keeps_steady [OF keeps_buildImage [OF quiet_log_detached keeps_any, of "\<lambda>p c. True"], simplified]
  keeps_steady [OF keeps_runContainer [of "\<lambda>args. True"], simplified]
  steady_waitForHealthy
  keeps_steady [OF keeps_getContainerLogs [OF keeps_any]]
  keeps_steady [OF keeps_stopAndRemoveContainer [OF keeps_any]]
  steady_unit [OF inert_inv [OF inert_prune [OF keeps_any]]]
  steady_unit [OF inv_startLogStreaming]

lemma steady_deploy_steps:
  "steady (deploy_steps env projectId buildId sourceDir hostPort appType envVars)"
  unfolding deploy_steps_def Let_def
  by (intro steady_thenTask steady_settled steady_pending steady_andThen steady_if steady_ret
        steady_lift steady_steps)

lemma steady_deploy: "steady (deploy env projectId buildId sourceDir hostPort appType envVars)"
  unfolding steady_def
proof (intro allI impI)
  fix w assume i: "registry_inv w"
  obtain r w' where d: "deploy_steps env projectId buildId sourceDir hostPort appType envVars w = (r, w')"
    by (cases "deploy_steps env projectId buildId sourceDir hostPort appType envVars w") auto
  have 1: "registry_inv w'"
    using steady_deploy_steps [of env projectId buildId sourceDir hostPort appType envVars] d i
    by (auto simp: steady_def dest: spec [of _ w])
  show "registry_inv (snd (deploy env projectId buildId sourceDir hostPort appType envVars w))"
  proof (cases r)
    case None
    with d 1 show ?thesis by (simp add: deploy_def)
  next
    case (Some x)
    show ?thesis
    proof (cases x)
      case (Inr outcome)
      with Some d 1 show ?thesis by (simp add: deploy_def)
    next
      case (Inl message)
      have "steady (settled (andThen (logStream env buildId (''Deployment error: '' @ message) Error)
                      (\<lambda>u. ret \<lparr>success = False, containerId = None, error = Some message\<rparr>)))"
        by (intro steady_settled steady_andThen steady_ret steady_steps)
      then have "registry_inv
          (snd (settled (andThen (logStream env buildId (''Deployment error: '' @ message) Error)
                      (\<lambda>u. ret \<lparr>success = False, containerId = None, error = Some message\<rparr>)) w'))"
        using 1 by (simp add: steady_def)
      with d Some Inl show ?thesis by (simp add: deploy_def)
    qed
  qed
qed

lemma steady_logIfGiven: "steady (logIfGiven env buildId message level)"
  unfolding logIfGiven_def
  by (cases buildId) (simp_all add: steady_ret keeps_steady [OF keeps_logStream])

lemma steady_stop: "steady (stop env projectId buildId)"
  unfolding steady_def
proof (intro allI impI)
  fix w assume i: "registry_inv w"
  have 1: "registry_inv (stopLogStreaming projectId w)" using i by (rule inv_stopLogStreaming)
  have "steady (andThen (logIfGiven env buildId ''Stopping container...'' Info) (\<lambda>u.
          andThen (lift (stopAndRemoveContainer env (getContainerName projectId))) (\<lambda>result.
          andThen (if result then logIfGiven env buildId ''Container stopped'' Success else ret ()) (\<lambda>u.
          ret result))))"
    by (intro steady_andThen steady_if steady_ret steady_lift steady_steps steady_logIfGiven)
  then have "registry_inv
      (snd ((andThen (logIfGiven env buildId ''Stopping container...'' Info) (\<lambda>u.
          andThen (lift (stopAndRemoveContainer env (getContainerName projectId))) (\<lambda>result.
          andThen (if result then logIfGiven env buildId ''Container stopped'' Success else ret ()) (\<lambda>u.
          ret result)))) (stopLogStreaming projectId w)))"
    using 1 by (simp add: steady_def)
  then show "registry_inv (snd (stop env projectId buildId w))"
    by (simp add: stop_def Let_def)
qed

lemma inv_initial: "registry_inv (initial_world files)"
  by (simp add: registry_inv_def registry_ok_def tracked_def orderly_def initial_world_def
        registry_after_def cancelled_def map_filter_simps)

lemma inv_operation:
  "registry_operation env w w' \<Longrightarrow> registry_inv w \<Longrightarrow> registry_inv w'"
proof (induction rule: registry_operation.induct)
  case (op_deploy env w projectId buildId sourceDir hostPort appType envVars)
  then show ?case using steady_deploy by (simp add: steady_def)
next
  case (op_startLogStreaming env w projectId buildId)
  then show ?case by (rule inv_startLogStreaming)
next
  case (op_stopLogStreaming env w projectId)
  then show ?case by (rule inv_stopLogStreaming)
next
  case (op_stop env w projectId buildIdOpt)
  then show ?case using steady_stop by (simp add: steady_def)
next
  case (op_cleanup env w projectId buildIds)
  then show ?case by (rule inv_cleanup)
next
  case (op_recoverLogStreams env w)
  then show ?case by (rule inv_recoverLogStreams)
qed

subsection \<open>The effects of a deployment\<close>

lemma emits_snd: "emits P m \<Longrightarrow> adds P w (snd (m w))"
  by (simp add: emits_def)

lemma keeps_emits:
  assumes "keeps D W m" and "\<And>e. plain_event D W e \<Longrightarrow> P e"
  shows "emits P m"
  unfolding emits_def
proof
  fix w
  have "inert D W w (snd (m w))" using assms(1) by (simp add: keeps_def)
  then show "adds P w (snd (m w))" by (rule inert_adds) (rule assms(2))
qed

lemma emits_ret: "emits P (ret a)"
  by (simp add: emits_def ret_def adds_refl)

lemma emits_andThen:
  assumes "emits P m" and "\<And>a. emits P (f a)"
  shows "emits P (andThen m f)"
  unfolding emits_def
proof
  fix w
  obtain r w' where m: "m w = (r, w')" by (cases "m w") auto
  have 1: "adds P w w'" using emits_snd [OF assms(1), of w] m by simp
  show "adds P w (snd (andThen m f w))"
  proof (cases r)
    case (Inl e)
    with m 1 show ?thesis by (simp add: andThen_def)
  next
    case (Inr a)
    have "adds P w' (snd (f a w'))" using assms(2) [of a] by (simp add: emits_def)
    with 1 have "adds P w (snd (f a w'))" by (rule adds_trans)
    with m Inr show ?thesis by (simp add: andThen_def)
  qed
qed

lemma emits_lift: "emits P m \<Longrightarrow> emits P (lift m)"
  by (simp add: emits_def lift_def split: prod.splits) (metis snd_conv)

lemma emits_if: "emits P a \<Longrightarrow> emits P b \<Longrightarrow> emits P (if c then a else b)"
  by simp

lemma emits_settled: "emits P m \<Longrightarrow> emits P (settled m)"
  by (simp add: emits_def settled_def split: prod.splits) (metis snd_conv)

lemma emits_pending: "emits P m \<Longrightarrow> emits P (pending m)"
  by (simp add: emits_def pending_def split: prod.splits) (metis snd_conv)

lemma emits_thenTask:
  assumes "emits P m" and "\<And>a. emits P (f a)"
  shows "emits P (thenTask m f)"
  unfolding emits_def
proof
  fix w
  obtain r w' where m: "m w = (r, w')" by (cases "m w") auto
  have 1: "adds P w w'" using emits_snd [OF assms(1), of w] m by simp
  show "adds P w (snd (thenTask m f w))"
  proof (cases r)
    case None
    with m 1 show ?thesis by (simp add: thenTask_def)
  next
    case (Some x)
    show ?thesis
    proof (cases x)
      case (Inl e)
      with Some m 1 show ?thesis by (simp add: thenTask_def)
    next
      case (Inr a)
      have "adds P w' (snd (f a w'))" using assms(2) [of a] by (simp add: emits_def)
      with 1 have "adds P w (snd (f a w'))" by (rule adds_trans)
      with m Some Inr show ?thesis by (simp add: thenTask_def)
    qed
  qed
qed

lemma emits_unit: "(\<And>w. adds P w (f w)) \<Longrightarrow> emits P (\<lambda>w. ((), f w))"
  by (simp add: emits_def)

lemma emits_waitForHealthy:
  assumes "\<And>e. plain_event D W e \<Longrightarrow> P e"
  shows "emits P (waitForHealthy env port timeoutMs)"
  unfolding emits_def
proof
  fix w
  have "calm D W w (snd (waitForHealthy env port timeoutMs w))" by (rule calm_waitForHealthy)
  then have "adds (plain_event D W) w (snd (waitForHealthy env port timeoutMs w))"
    by (simp add: calm_def)
  then show "adds P w (snd (waitForHealthy env port timeoutMs w))"
    by (rule adds_mono) (rule assms)
qed

lemma adds_stopLogStreaming:
  assumes "\<And>h. P (Kill h)" and "\<And>q. P (Unregister q)"
  shows "adds P w (stopLogStreaming p w)"
  using assms
  by (simp add: stopLogStreaming_def cancelStream_def emit_def Let_def adds_iff split: option.splits)

lemma adds_startLogStreaming:
  assumes "\<And>h. P (Kill h)" and "\<And>q. P (Unregister q)" and "\<And>h a. P (Spawn h a)"
    and "\<And>q h. P (Register q h)"
  shows "adds P w (startLogStreaming p b w)"
proof -
  have 1: "adds P w (stopLogStreaming p w)" using assms(1,2) by (rule adds_stopLogStreaming)
  have 2: "adds P (stopLogStreaming p w) (startLogStreaming p b w)"
    using assms(3,4)
    by (simp add: startLogStreaming_def streamContainerLogs_def emit_def Let_def adds_iff)
  from 1 2 show ?thesis by (rule adds_trans)
qed
lemma emits_deploy:
  assumes pl: "\<And>e. plain_event D W e \<Longrightarrow> P e"
    and nr: "nonrun D"
    and run: "\<And>imageName. D (runArgs (deployConfig projectId buildId imageName sourceDir hostPort
                                          appType envVars))"
    and w1: "\<And>c. W (join_path sourceDir ''Dockerfile'') (sanitizeDockerfile c (internalPortOf appType))"
    and w2: "\<And>e. W (join_path sourceDir ''Dockerfile'')
                    (getDockerfileContent appType (internalPortOf appType) e)"
    and st: "\<And>h. P (Kill h)" "\<And>q. P (Unregister q)" "\<And>h a. P (Spawn h a)" "\<And>q h. P (Register q h)"
  shows "emits P (deploy env projectId buildId sourceDir hostPort appType envVars)"
proof -
  note steps =
    keeps_emits [OF keeps_logStream pl]
    keeps_emits [OF keeps_ensureContainerStopped [OF nr] pl]
    keeps_emits [OF keeps_buildImage
                      [where D = D and W = W and sourceDir = sourceDir and framework = appType
                         and internalPort = "internalPortOf appType",
                       OF quiet_log_detached nr w1 w2] pl]
    keeps_emits [OF keeps_runContainer [where D = D, OF run] pl]
    emits_waitForHealthy [OF pl]
    keeps_emits [OF keeps_getContainerLogs [OF nr] pl]
    keeps_emits [OF keeps_stopAndRemoveContainer [OF nr] pl]
    emits_unit [OF inert_adds [OF inert_prune [OF nr] pl]]
    emits_unit [OF adds_startLogStreaming [where P = P, OF st]]
  have s: "emits P (deploy_steps env projectId buildId sourceDir hostPort appType envVars)"
    unfolding deploy_steps_def Let_def
    by (intro emits_thenTask emits_settled emits_pending emits_andThen emits_if emits_ret
          emits_lift steps)
  show ?thesis
    unfolding emits_def
  proof
    fix w
    obtain r w' where d: "deploy_steps env projectId buildId sourceDir hostPort appType envVars w = (r, w')"
      by (cases "deploy_steps env projectId buildId sourceDir hostPort appType envVars w") auto
    have 1: "adds P w w'" using emits_snd [OF s, of w] d by simp
    show "adds P w (snd (deploy env projectId buildId sourceDir hostPort appType envVars w))"
    proof (cases r)
      case None
      with d 1 show ?thesis by (simp add: deploy_def)
    next
      case (Some x)
      show ?thesis
      proof (cases x)
        case (Inr outcome)
        with Some d 1 show ?thesis by (simp add: deploy_def)
      next
        case (Inl message)
        have "emits P (settled (andThen (logStream env buildId (''Deployment error: '' @ message) Error)
                        (\<lambda>u. ret \<lparr>success = False, containerId = None, error = Some message\<rparr>)))"
          by (intro emits_settled emits_andThen emits_ret steps)
        then have "adds P w'
            (snd (settled (andThen (logStream env buildId (''Deployment error: '' @ message) Error)
                        (\<lambda>u. ret \<lparr>success = False, containerId = None, error = Some message\<rparr>)) w'))"
          by (rule emits_snd)
        with 1 have "adds P w
            (snd (settled (andThen (logStream env buildId (''Deployment error: '' @ message) Error)
                        (\<lambda>u. ret \<lparr>success = False, containerId = None, error = Some message\<rparr>)) w'))"
          by (rule adds_trans)
        with d Some Inl show ?thesis by (simp add: deploy_def)
      qed
    qed
  qed
qed

subsection \<open>Internal port\<close>

lemma runArgs_port_mapping:
  "runArgs config ! 5 = show_nat (cfg_hostPort config) @ '':'' @ show_nat (cfg_internalPort config)"
  by (simp add: runArgs_def Let_def)

lemma runArgs_port_flag: "runArgs config ! 4 = ''-p''"
  by (simp add: runArgs_def Let_def)

text \<open>
  C6, as amended. For every call of \<open>deploy\<close>, in every environment and from every state,
  the internal port is a function of the application type alone: 80 for \<open>vite\<close>, 3000
  for every other type. Whatever \<open>deploy\<close> adds to the effects is in line with it: every
  file it writes is the recipe file of the source directory, sanitized or generated for
  that port, and every \<open>run\<close> command it issues maps the host port to that port with
  the flag \<open>-p\<close>. The recipe generated for \<open>vite\<close> is the static-file-serving template
  whatever the port and the entry file are, and it exposes port 80. Nothing keeps the host
  port different from the internal port.
\<close>

theorem internal_port_by_app_type:
  "internalPortOf appType = (if appType = Vite then 80 else 3000)
   \<and> extends_trace w (snd (deploy env projectId buildId sourceDir hostPort appType envVars w))
   \<and> list_all (port_event hostPort sourceDir appType)
        (new_events w (snd (deploy env projectId buildId sourceDir hostPort appType envVars w)))
   \<and> getDockerfileContent Vite internalPort entryFile = getDockerfileContent Vite internalPort' entryFile'
   \<and> exposed_ports (getDockerfileContent Vite internalPort entryFile) = [''80'']"
proof -
  let ?D = "port_mapping hostPort (internalPortOf appType)"
  let ?W = "recipe_for sourceDir appType (internalPortOf appType)"
  have pl: "\<And>e. plain_event ?D ?W e \<Longrightarrow> port_event hostPort sourceDir appType e"
  proof -
    fix e assume "plain_event ?D ?W e"
    then show "port_event hostPort sourceDir appType e"
      by (cases e) (simp_all add: plain_event_def port_event_def)
  qed
  have nr: "nonrun ?D" by (simp add: nonrun_def port_mapping_def)
  have run: "\<And>imageName. ?D (runArgs (deployConfig projectId buildId imageName sourceDir hostPort
                                          appType envVars))"
    by (simp add: port_mapping_def runArgs_port_mapping runArgs_port_flag deployConfig_def)
  have w1: "\<And>c. ?W (join_path sourceDir ''Dockerfile'') (sanitizeDockerfile c (internalPortOf appType))"
    by (auto simp: recipe_for_def)
  have w2: "\<And>e. ?W (join_path sourceDir ''Dockerfile'')
                    (getDockerfileContent appType (internalPortOf appType) e)"
    by (auto simp: recipe_for_def)
  have "emits (port_event hostPort sourceDir appType)
          (deploy env projectId buildId sourceDir hostPort appType envVars)"
    by (rule emits_deploy [where D = "?D" and W = "?W" and P = "port_event hostPort sourceDir appType",
                           OF pl nr run w1 w2])
       (simp_all add: port_event_def)
  then have a: "adds (port_event hostPort sourceDir appType) w
                  (snd (deploy env projectId buildId sourceDir hostPort appType envVars w))"
    by (rule emits_snd)
  have t: "exposed_ports (getDockerfileContent Vite internalPort entryFile) = [''80'']"
    by (simp add: getDockerfileContent_def Let_def exposed_ports_def instruction_name_def
          instruction_args_def trim_def toUpperCase_def upper_char_def is_space_def)
  have p: "internalPortOf appType = (if appType = Vite then 80 else 3000)"
    by (simp add: internalPortOf_def VITE_INTERNAL_PORT_def DEFAULT_INTERNAL_PORT_def)
  have v: "getDockerfileContent Vite internalPort entryFile = getDockerfileContent Vite internalPort' entryFile'"
    by (simp add: getDockerfileContent_def)
  from a have a1: "extends_trace w (snd (deploy env projectId buildId sourceDir hostPort appType envVars w))"
    and a2: "list_all (port_event hostPort sourceDir appType)
        (new_events w (snd (deploy env projectId buildId sourceDir hostPort appType envVars w)))"
    by (simp_all add: adds_def)
  show ?thesis
    by (rule conjI [OF p conjI [OF a1 conjI [OF a2 conjI [OF v t]]]])
qed

theorem internal_port_by_app_type_witness:
  "internalPortOf Vite = 80 \<and> internalPortOf Express = 3000 \<and> internalPortOf Nextjs = 3000
   \<and> internalPortOf Hono = 3000 \<and> internalPortOf Elysia = 3000
   \<and> list_all (port_event 8080 ''/src'' Vite)
         (trace (snd (deploy healthy_env ''proj-aaaa1111'' ''bld-bbbb2222'' ''/src'' 8080 Vite []
                        (initial_world [''/src'' \<mapsto> Dir]))))
   \<and> port_event 8080 ''/src'' Vite
         (Docker (runArgs (deployConfig ''proj-aaaa1111'' ''bld-bbbb2222'' ''img'' ''/src'' 8080 Vite [])))
   \<and> runArgs (deployConfig ''proj-aaaa1111'' ''bld-bbbb2222'' ''img'' ''/src'' 8080 Vite []) ! 5
       = ''8080:80''
   \<and> \<not> port_event 8080 ''/src'' Vite
           (Docker [''run'', ''-d'', ''--name'', ''thakur-proj-aaa'', ''-p'', ''8080:3000'', ''img''])"
  using internal_port_by_app_type
          [of Vite "initial_world [''/src'' \<mapsto> Dir]" healthy_env "''proj-aaaa1111''"
              "''bld-bbbb2222''" "''/src''" 8080 "[]"]
        internal_port_by_app_type [of Express] internal_port_by_app_type [of Nextjs]
        internal_port_by_app_type [of Hono] internal_port_by_app_type [of Elysia]
  by (simp add: new_events_def initial_world_def port_event_def port_mapping_def
        runArgs_port_mapping runArgs_port_flag deployConfig_def show_nat.simps runArgs_def)

text \<open>
  The claim as stated fails: a deploy of an \<open>express\<close> application on host port 3000
  maps host port 3000 to internal port 3000.
\<close>

theorem internal_port_host_port_counterexample:
  "cfg_internalPort (deployConfig ''proj-aaaa1111'' ''bld-bbbb2222'' ''img'' ''/tmp/src'' 3000 Express [])
     = cfg_hostPort (deployConfig ''proj-aaaa1111'' ''bld-bbbb2222'' ''img'' ''/tmp/src'' 3000 Express [])
   \<and> runArgs (deployConfig ''proj-aaaa1111'' ''bld-bbbb2222'' ''img'' ''/tmp/src'' 3000 Express []) ! 5
     = ''3000:3000''"
  by (simp add: runArgs_port_mapping deployConfig_def internalPortOf_def DEFAULT_INTERNAL_PORT_def
        show_nat.simps)

subsection \<open>The registry invariant\<close>

lemma grows_inert: "inert D W w w' \<Longrightarrow> adds (\<lambda>e. True) w w'"
  by (erule inert_adds) simp

lemma grows_deploy:
  "adds (\<lambda>e. True) w (snd (deploy env projectId buildId sourceDir hostPort appType envVars w))"
proof -
  have "emits (\<lambda>e. True) (deploy env projectId buildId sourceDir hostPort appType envVars)"
    by (rule emits_deploy [where D = "\<lambda>args. True" and W = "\<lambda>p c. True"])
       (simp_all add: nonrun_def)
  then show ?thesis by (rule emits_snd)
qed

lemma grows_stop: "adds (\<lambda>e. True) w (snd (stop env projectId buildId w))"
proof -
  let ?D = "\<lambda>args :: string list. True" and ?W = "\<lambda>(p :: string) (c :: string). True"
  have 1: "adds (\<lambda>e. True) w (stopLogStreaming projectId w)"
    by (rule adds_stopLogStreaming) simp_all
  have l: "\<And>m l. emits (\<lambda>e. True) (logIfGiven env buildId m l)"
  proof -
    fix m l
    show "emits (\<lambda>e. True) (logIfGiven env buildId m l)"
      unfolding logIfGiven_def
      by (cases buildId) (simp_all add: emits_ret keeps_emits [OF keeps_logStream [of ?D ?W]])
  qed
  have s: "emits (\<lambda>e. True) (lift (stopAndRemoveContainer env (getContainerName projectId)))"
    by (intro emits_lift keeps_emits [OF keeps_stopAndRemoveContainer [OF keeps_any, of ?W]]) simp
  have "emits (\<lambda>e. True) (andThen (logIfGiven env buildId ''Stopping container...'' Info) (\<lambda>u.
          andThen (lift (stopAndRemoveContainer env (getContainerName projectId))) (\<lambda>result.
          andThen (if result then logIfGiven env buildId ''Container stopped'' Success else ret ()) (\<lambda>u.
          ret result))))"
    by (intro emits_andThen emits_if emits_ret l s)
  then have "adds (\<lambda>e. True) (stopLogStreaming projectId w)
      (snd ((andThen (logIfGiven env buildId ''Stopping container...'' Info) (\<lambda>u.
          andThen (lift (stopAndRemoveContainer env (getContainerName projectId))) (\<lambda>result.
          andThen (if result then logIfGiven env buildId ''Container stopped'' Success else ret ()) (\<lambda>u.
          ret result)))) (stopLogStreaming projectId w)))"
    by (rule emits_snd)
  with 1 have "adds (\<lambda>e. True) w
      (snd ((andThen (logIfGiven env buildId ''Stopping container...'' Info) (\<lambda>u.
          andThen (lift (stopAndRemoveContainer env (getContainerName projectId))) (\<lambda>result.
          andThen (if result then logIfGiven env buildId ''Container stopped'' Success else ret ()) (\<lambda>u.
          ret result)))) (stopLogStreaming projectId w)))"
    by (rule adds_trans)
  then show ?thesis by (simp add: stop_def Let_def)
qed

lemma grows_cleanup: "adds (\<lambda>e. True) w (cleanup env p ids w)"
proof -
  define w1 where "w1 = stopLogStreaming p w"
  define w2 where "w2 = snd (ensureContainerStopped env p w1)"
  have 1: "adds (\<lambda>e. True) w w1" unfolding w1_def by (rule adds_stopLogStreaming) simp_all
  have "inert (\<lambda>args. True) (\<lambda>p c. True) w1 w2"
    unfolding w2_def by (rule keeps_snd [OF keeps_ensureContainerStopped [OF keeps_any]])
  then have "adds (\<lambda>e. True) w1 w2" by (rule grows_inert)
  with 1 have 2: "adds (\<lambda>e. True) w w2" by (rule adds_trans)
  have 3: "\<And>ns. adds (\<lambda>e. True) w (removeImages env ns w2)"
    using adds_trans [OF 2 grows_inert [OF inert_removeImages [OF keeps_any, of "\<lambda>p c. True"]]] .
  show ?thesis
    using 2 3 by (simp add: cleanup_def Let_def w1_def w2_def split: option.splits)
qed

lemma grows_fold_start:
  "adds (\<lambda>e. True) w (fold (\<lambda>c. startLogStreaming (c_projectId c) (c_buildId c)) cs w)"
proof (induction cs arbitrary: w)
  case Nil
  then show ?case by (simp add: adds_refl)
next
  case (Cons c cs)
  have "adds (\<lambda>e. True) w (startLogStreaming (c_projectId c) (c_buildId c) w)"
    by (rule adds_startLogStreaming) simp_all
  from adds_trans [OF this Cons] show ?case by simp
qed

lemma grows_recoverLogStreams: "adds (\<lambda>e. True) w (recoverLogStreams env w)"
proof -
  obtain cs w1 where l: "listRunningContainers env w = (cs, w1)"
    by (cases "listRunningContainers env w") auto
  then have w1: "w1 = snd (execDocker env listArgs w)"
    by (auto simp: listRunningContainers_def split: prod.splits)
  have "keeps (\<lambda>args. True) (\<lambda>p c. True) (execDocker env listArgs)"
    by (rule keeps_execDocker) simp
  then have "inert (\<lambda>args. True) (\<lambda>p c. True) w w1" unfolding w1 by (rule keeps_snd)
  then have "adds (\<lambda>e. True) w w1" by (rule grows_inert)
  from adds_trans [OF this grows_fold_start] l show ?thesis
    by (simp add: recoverLogStreams_def)
qed

lemma grows_operation: "registry_operation env w w' \<Longrightarrow> extends_trace w w'"
proof (induction rule: registry_operation.induct)
  case (op_deploy env w projectId buildId sourceDir hostPort appType envVars)
  show ?case using grows_deploy by (simp add: adds_def)
next
  case (op_startLogStreaming env w projectId buildId)
  have "adds (\<lambda>e. True) w (startLogStreaming projectId buildId w)"
    by (rule adds_startLogStreaming) simp_all
  then show ?case by (simp add: adds_def)
next
  case (op_stopLogStreaming env w projectId)
  have "adds (\<lambda>e. True) w (stopLogStreaming projectId w)"
    by (rule adds_stopLogStreaming) simp_all
  then show ?case by (simp add: adds_def)
next
  case (op_stop env w projectId buildIdOpt)
  show ?case using grows_stop by (simp add: adds_def)
next
  case (op_cleanup env w projectId buildIds)
  show ?case using grows_cleanup by (simp add: adds_def)
next
  case (op_recoverLogStreams env w)
  show ?case using grows_recoverLogStreams by (simp add: adds_def)
qed

text \<open>
  C4. The state of a fresh process satisfies the invariant of the registry, and each of
  \<open>deploy\<close>, \<open>startLogStreaming\<close>, \<open>stopLogStreaming\<close>, \<open>stop\<close>, \<open>cleanup\<close> and
  \<open>recoverLogStreams\<close>, from any state that satisfies it and in any environment, faults
  and a deployment that never returns included, leaves a state that satisfies it and only
  adds to the history. The invariant says that the history is orderly: whenever a handle is
  stored for a project, the handle stored for it before has been cancelled and its entry
  deleted, and an entry is deleted only after its handle has been cancelled. So at every
  moment of the history every project has at most one active handle.
\<close>

theorem registry_handle_cancelled_before_replaced:
  "registry_inv (initial_world files)
   \<and> (registry_inv w \<and> registry_operation env w w'
        \<longrightarrow> registry_inv w' \<and> extends_trace w w' \<and> orderly (trace w')
            \<and> (\<forall>n p. length (active p (take n (trace w'))) \<le> 1))"
proof -
  have "registry_inv w' \<and> extends_trace w w' \<and> orderly (trace w')
            \<and> (\<forall>n p. length (active p (take n (trace w'))) \<le> 1)"
    if i: "registry_inv w" and o: "registry_operation env w w'"
  proof -
    have 1: "registry_inv w'" using o i by (rule inv_operation)
    then have 2: "orderly (trace w')" by (simp add: registry_inv_def)
    have 3: "extends_trace w w'" using o by (rule grows_operation)
    from 1 2 3 orderly_one_active [OF 2] show ?thesis by blast
  qed
  then show ?thesis using inv_initial by blast
qed

theorem registry_handle_cancelled_before_replaced_witness:
  "registry_inv (initial_world Map.empty)
   \<and> trace (startLogStreaming ''p1'' ''b2'' (startLogStreaming ''p1'' ''b1'' (initial_world Map.empty)))
       = [Spawn 0 [''logs'', ''-f'', ''--tail'', ''0'', ''thakur-p1''], Register ''p1'' 0,
          Kill 0, Unregister ''p1'',
          Spawn 1 [''logs'', ''-f'', ''--tail'', ''0'', ''thakur-p1''], Register ''p1'' 1]
   \<and> registry_inv (startLogStreaming ''p1'' ''b2'' (startLogStreaming ''p1'' ''b1'' (initial_world Map.empty)))
   \<and> length (active ''p1'' (take 2
        (trace (startLogStreaming ''p1'' ''b2''
                  (startLogStreaming ''p1'' ''b1'' (initial_world Map.empty)))))) \<le> 1
   \<and> active ''p1'' [Spawn 0 [''logs'', ''-f'', ''--tail'', ''0'', ''thakur-p1''], Register ''p1'' 0] = [0]
   \<and> \<not> orderly [Spawn 0 [], Register ''p1'' 0, Spawn 1 [], Register ''p1'' 1, Kill 0]"
proof -
  let ?w0 = "initial_world Map.empty"
  let ?w1 = "startLogStreaming ''p1'' ''b1'' ?w0"
  let ?w2 = "startLogStreaming ''p1'' ''b2'' ?w1"
  have t: "trace ?w2
       = [Spawn 0 [''logs'', ''-f'', ''--tail'', ''0'', ''thakur-p1''], Register ''p1'' 0,
          Kill 0, Unregister ''p1'',
          Spawn 1 [''logs'', ''-f'', ''--tail'', ''0'', ''thakur-p1''], Register ''p1'' 1]"
    by (simp add: startLogStreaming_def stopLogStreaming_def streamContainerLogs_def emit_def
          cancelStream_def initial_world_def getContainerName_def Let_def)
  have a: "active ''p1'' [Spawn 0 [''logs'', ''-f'', ''--tail'', ''0'', ''thakur-p1''], Register ''p1'' 0] = [0]"
    by (simp add: active_def registered_def cancelled_def map_filter_simps)
  have n: "\<not> orderly [Spawn 0 [], Register ''p1'' 0, Spawn 1 [], Register ''p1'' 1, Kill 0]"
    by (simp add: orderly_def event_ok_def registry_after_def upt_rec)
  from registry_handle_cancelled_before_replaced [of Map.empty ?w0 quiet_env ?w1]
  have i0: "registry_inv ?w0" and i1: "registry_inv ?w1"
    using op_startLogStreaming [of quiet_env ?w0 "''p1''" "''b1''"] by blast+
  from registry_handle_cancelled_before_replaced [of Map.empty ?w1 quiet_env ?w2] i1
  have i2: "registry_inv ?w2" and l: "\<forall>n p. length (active p (take n (trace ?w2))) \<le> 1"
    using op_startLogStreaming [of quiet_env ?w1 "''p1''" "''b2''"] by blast+
  from l have l2: "length (active ''p1'' (take 2 (trace ?w2))) \<le> 1" by blast
  show ?thesis
    by (rule conjI [OF i0 conjI [OF t conjI [OF i2 conjI [OF l2 conjI [OF a n]]]]])
qed

subsection \<open>Image retention\<close>

lemma docker_cmds_append: "docker_cmds (xs @ ys) = docker_cmds xs @ docker_cmds ys"
  by (simp add: docker_cmds_def map_filter_def)

lemma docker_cmds_execDocker:
  "docker_cmds (trace (snd (execDocker env args w))) = docker_cmds (trace w) @ [args]"
  by (simp add: execDocker_def emit_def docker_cmds_append) (simp add: docker_cmds_def map_filter_simps)

lemma docker_cmds_removeImages:
  "docker_cmds (trace (removeImages env ns w)) =
     docker_cmds (trace w) @ map (\<lambda>n. [''rmi'', ''-f'', n]) ns"
proof (induction ns arbitrary: w)
  case Nil
  then show ?case by simp
next
  case (Cons n ns)
  have "snd (removeImage env n w) = snd (execDocker env [''rmi'', ''-f'', n] w)"
    by (simp add: removeImage_def split: prod.splits)
  then show ?case using Cons [of "snd (removeImage env n w)"]
    by (simp add: docker_cmds_execDocker)
qed

lemma count_insert_by: "count_list (insert_by cmp x ys) z = count_list (x # ys) z"
  by (induction ys) auto

lemma count_sort_by: "count_list (sort_by cmp xs) z = count_list xs z"
  unfolding sort_by_def by (induction xs) (simp_all add: count_insert_by)

lemma set_insert_by: "set (insert_by cmp x ys) = insert x (set ys)"
  by (induction ys) auto

lemma set_sort_by: "set (sort_by cmp xs) = set xs"
  unfolding sort_by_def by (induction xs) (simp_all add: set_insert_by)

lemma length_insert_by: "length (insert_by cmp x ys) = Suc (length ys)"
  by (induction ys) auto

lemma length_sort_by: "length (sort_by cmp xs) = length xs"
  unfolding sort_by_def by (induction xs) (simp_all add: length_insert_by)

lemma compare_created_dated:
  "dateTime env (img_date a) \<noteq> None \<Longrightarrow> dateTime env (img_date b) \<noteq> None \<Longrightarrow>
     (compare_created env a b \<le> 0) = created_not_before env a b"
  by (auto simp: compare_created_def created_not_before_def)

lemma created_not_before_total:
  "dateTime env (img_date a) \<noteq> None \<Longrightarrow> dateTime env (img_date b) \<noteq> None \<Longrightarrow>
     created_not_before env a b \<or> created_not_before env b a"
  by (auto simp: created_not_before_def)

lemma created_not_before_trans:
  "created_not_before env a b \<Longrightarrow> created_not_before env b c \<Longrightarrow> created_not_before env a c"
  by (auto simp: created_not_before_def split: option.splits)

lemma sorted_insert_by:
  assumes "sorted_wrt (created_not_before env) ys"
    and "dateTime env (img_date x) \<noteq> None"
    and "\<forall>y \<in> set ys. dateTime env (img_date y) \<noteq> None"
  shows "sorted_wrt (created_not_before env) (insert_by (compare_created env) x ys)"
  using assms
proof (induction ys)
  case Nil
  then show ?case by simp
next
  case (Cons y ys)
  show ?case
  proof (cases "compare_created env x y \<le> 0")
    case True
    then have xy: "created_not_before env x y" using Cons.prems by (simp add: compare_created_dated)
    then have "\<forall>z \<in> set ys. created_not_before env x z"
      using Cons.prems(1) created_not_before_trans by fastforce
    with True xy Cons.prems(1) show ?thesis by simp
  next
    case False
    then have "\<not> created_not_before env x y" using Cons.prems by (simp add: compare_created_dated)
    then have yx: "created_not_before env y x"
      using created_not_before_total [of env x y] Cons.prems by auto
    have "sorted_wrt (created_not_before env) (insert_by (compare_created env) x ys)"
      using Cons by simp
    with False yx Cons.prems(1) show ?thesis by (auto simp: set_insert_by)
  qed
qed

lemma sorted_sort_by:
  "\<forall>y \<in> set xs. dateTime env (img_date y) \<noteq> None \<Longrightarrow>
     sorted_wrt (created_not_before env) (sort_by (compare_created env) xs)"
proof (induction xs)
  case Nil
  then show ?case by (simp add: sort_by_def)
next
  case (Cons x xs)
  then have "sorted_wrt (created_not_before env) (sort_by (compare_created env) xs)" by simp
  then have "sorted_wrt (created_not_before env)
               (insert_by (compare_created env) x (sort_by (compare_created env) xs))"
    using Cons.prems by (intro sorted_insert_by) (simp_all add: set_sort_by)
  then show ?case by (simp add: sort_by_def)
qed

lemma sorted_wrt_take_drop:
  "sorted_wrt R xs \<Longrightarrow> a \<in> set (take k xs) \<Longrightarrow> b \<in> set (drop k xs) \<Longrightarrow> R a b"
  by (metis append_take_drop_id sorted_wrt_append)

lemma consistent_dates_readable:
  "\<forall>img \<in> set xs. dateTime env (img_date img) \<noteq> None \<Longrightarrow> consistent_dates env xs"
  by (simp add: consistent_dates_def Let_def list_all_iff)

text \<open>
  When the listing succeeds with some output and the engine reads the date of every listed
  line: the entries are sorted into a permutation ordered by creation time, newest first;
  the commands issued after the listing are exactly one forced removal per entry beyond
  the first \<open>keepCount\<close>, in that order; their number is the number of entries minus
  \<open>keepCount\<close>; and every entry kept was created no earlier than every entry removed.
  This holds for every environment, so also when removals fail: a failed removal stops
  neither the later removals nor the operation.
\<close>

lemma prune_removes_beyond_newest_dated:
  assumes "exitCode (execResult env (trace w) (imagesArgs projectId)) = 0"
    and "stdout (execResult env (trace w) (imagesArgs projectId)) \<noteq> []"
    and "\<forall>img \<in> set (listedImages (execResult env (trace w) (imagesArgs projectId))).
           dateTime env (img_date img) \<noteq> None"
  shows "(let listed = listedImages (execResult env (trace w) (imagesArgs projectId));
              images = sortImages env listed
          in imagesArgs projectId ! 4 = ''reference=thakur-deploy/'' @ take 8 projectId @ '':*''
             \<and> (\<forall>z. count_list images z = count_list listed z)
             \<and> sorted_wrt (created_not_before env) images
             \<and> docker_cmds (trace (pruneProjectImages env projectId keepCount w))
                 = docker_cmds (trace w) @ [imagesArgs projectId]
                     @ map (\<lambda>img. [''rmi'', ''-f'', img_name img]) (drop keepCount images)
             \<and> length (drop keepCount images) = length listed - keepCount
             \<and> (\<forall>a \<in> set (take keepCount images). \<forall>b \<in> set (drop keepCount images).
                   created_not_before env a b))"
proof -
  define r where "r = execResult env (trace w) (imagesArgs projectId)"
  define listed where "listed = listedImages r"
  define images where "images = sortImages env listed"
  have cons: "consistent_dates env listed"
    using assms(3) unfolding listed_def r_def by (rule consistent_dates_readable)
  then have srt: "images = sort_by (compare_created env) listed"
    by (simp add: images_def sortImages_def)
  have a: "imagesArgs projectId ! 4 = ''reference=thakur-deploy/'' @ take 8 projectId @ '':*''"
    by (simp add: imagesArgs_def Let_def)
  have b: "\<forall>z. count_list images z = count_list listed z"
    unfolding srt by (simp add: count_sort_by)
  have c: "sorted_wrt (created_not_before env) images"
    unfolding srt using assms(3) by (intro sorted_sort_by) (simp add: listed_def r_def)
  have w1: "docker_cmds (trace (snd (execDocker env (imagesArgs projectId) w)))
              = docker_cmds (trace w) @ [imagesArgs projectId]"
    by (rule docker_cmds_execDocker)
  have p: "pruneProjectImages env projectId keepCount w
             = removeImages env (map img_name (drop keepCount images))
                 (snd (execDocker env (imagesArgs projectId) w))"
    using assms(1,2)
    by (simp add: pruneProjectImages_def execDocker_def Let_def images_def listed_def r_def)
  have d: "docker_cmds (trace (pruneProjectImages env projectId keepCount w))
             = docker_cmds (trace w) @ [imagesArgs projectId]
                 @ map (\<lambda>img. [''rmi'', ''-f'', img_name img]) (drop keepCount images)"
    unfolding p by (simp add: docker_cmds_removeImages w1 comp_def)
  have e: "length (drop keepCount images) = length listed - keepCount"
    unfolding srt by (simp add: length_sort_by)
  have f: "\<forall>a \<in> set (take keepCount images). \<forall>b \<in> set (drop keepCount images).
             created_not_before env a b"
  proof (intro ballI)
    fix a b assume "a \<in> set (take keepCount images)" and "b \<in> set (drop keepCount images)"
    with c show "created_not_before env a b" by (rule sorted_wrt_take_drop)
  qed
  show ?thesis
    unfolding Let_def
    using conjI [OF a conjI [OF b conjI [OF c conjI [OF d conjI [OF e f]]]]]
    unfolding images_def listed_def r_def .
qed


text \<open>
  C8 fails on the code. The engine sorts by what \<open>new Date\<close> reads from the date the
  runtime prints. A runtime in the zone IST prints dates that it does not read; then every
  comparison is 0, the order of the listing is kept, and the entries cut off are the last
  of the listing. Of five images listed in the order March, May, January, April, February
  with a retention of 3, the images of April and February are removed and the image of
  January is kept, though it was created before the image of April. The removal of the
  first fails, and the second is removed all the same.
\<close>

theorem prune_keeps_listing_order_unread_dates:
  "map img_date (listedImages (execResult unread_dates_env [] (imagesArgs ''proj-aaaa1111'')))
     = [''2024-03-01 10:00:00 +0530 IST'', ''2024-05-01 10:00:00 +0530 IST'',
        ''2024-01-01 10:00:00 +0530 IST'', ''2024-04-01 10:00:00 +0530 IST'',
        ''2024-02-01 10:00:00 +0530 IST'']
   \<and> dateTime unread_dates_env ''2024-01-01 10:00:00 +0530 IST'' = None
   \<and> docker_cmds (trace (pruneProjectImages unread_dates_env ''proj-aaaa1111'' 3
                             (initial_world Map.empty)))
       = [imagesArgs ''proj-aaaa1111'',
          [''rmi'', ''-f'', ''thakur-deploy/proj-aaa:b4''],
          [''rmi'', ''-f'', ''thakur-deploy/proj-aaa:b5'']]
   \<and> printed_earlier ''2024-01-01 10:00:00 +0530 IST'' ''2024-04-01 10:00:00 +0530 IST''
   \<and> exitCode (execResult unread_dates_env [] [''rmi'', ''-f'', ''thakur-deploy/proj-aaa:b4'']) = 1"
proof -
  have r: "execResult unread_dates_env [] (imagesArgs ''proj-aaaa1111'')
     = \<lparr>exitCode = 0,
        stdout = ''thakur-deploy/proj-aaa:b1 2024-03-01 10:00:00 +0530 IST\<newline>''
                   @ ''thakur-deploy/proj-aaa:b2 2024-05-01 10:00:00 +0530 IST\<newline>''
                   @ ''thakur-deploy/proj-aaa:b3 2024-01-01 10:00:00 +0530 IST\<newline>''
                   @ ''thakur-deploy/proj-aaa:b4 2024-04-01 10:00:00 +0530 IST\<newline>''
                   @ ''thakur-deploy/proj-aaa:b5 2024-02-01 10:00:00 +0530 IST'',
        stderr = []\<rparr>"
    by (simp add: execResult_def unread_dates_env_def quiet_env_def exit_code_def stdout_text_def
          stderr_text_def trim_def is_space_def Let_def)
  have l: "listedImages (execResult unread_dates_env [] (imagesArgs ''proj-aaaa1111''))
     = [\<lparr>img_name = ''thakur-deploy/proj-aaa:b1'', img_date = ''2024-03-01 10:00:00 +0530 IST''\<rparr>,
        \<lparr>img_name = ''thakur-deploy/proj-aaa:b2'', img_date = ''2024-05-01 10:00:00 +0530 IST''\<rparr>,
        \<lparr>img_name = ''thakur-deploy/proj-aaa:b3'', img_date = ''2024-01-01 10:00:00 +0530 IST''\<rparr>,
        \<lparr>img_name = ''thakur-deploy/proj-aaa:b4'', img_date = ''2024-04-01 10:00:00 +0530 IST''\<rparr>,
        \<lparr>img_name = ''thakur-deploy/proj-aaa:b5'', img_date = ''2024-02-01 10:00:00 +0530 IST''\<rparr>]"
    unfolding r by (simp add: listedImages_def parse_image_line_def)
  have d: "dateTime unread_dates_env = (\<lambda>s. None)"
    by (simp add: unread_dates_env_def quiet_env_def)
  have s: "sortImages unread_dates_env
             (listedImages (execResult unread_dates_env [] (imagesArgs ''proj-aaaa1111'')))
           = listedImages (execResult unread_dates_env [] (imagesArgs ''proj-aaaa1111''))"
    unfolding l by (simp add: sortImages_def consistent_dates_def sort_by_def compare_created_def d)
  have x: "exitCode (execResult unread_dates_env [] [''rmi'', ''-f'', ''thakur-deploy/proj-aaa:b4'']) = 1"
    by (simp add: execResult_def unread_dates_env_def quiet_env_def exit_code_def imagesArgs_def Let_def)
  have ok: "exitCode (execResult unread_dates_env [] (imagesArgs ''proj-aaaa1111'')) = 0
            \<and> stdout (execResult unread_dates_env [] (imagesArgs ''proj-aaaa1111'')) \<noteq> []"
    unfolding r by simp
  have p0: "pruneProjectImages unread_dates_env ''proj-aaaa1111'' 3 (initial_world Map.empty)
             = removeImages unread_dates_env
                 (map img_name (drop 3 (sortImages unread_dates_env
                    (listedImages (execResult unread_dates_env [] (imagesArgs ''proj-aaaa1111'')))))) 
                 (snd (execDocker unread_dates_env (imagesArgs ''proj-aaaa1111'') (initial_world Map.empty)))"
    using ok by (simp add: pruneProjectImages_def execDocker_def Let_def initial_world_def)
  have p: "pruneProjectImages unread_dates_env ''proj-aaaa1111'' 3 (initial_world Map.empty)
             = removeImages unread_dates_env
                 [''thakur-deploy/proj-aaa:b4'', ''thakur-deploy/proj-aaa:b5'']
                 (snd (execDocker unread_dates_env (imagesArgs ''proj-aaaa1111'') (initial_world Map.empty)))"
    unfolding p0 s unfolding l by simp
  have c: "docker_cmds (trace (pruneProjectImages unread_dates_env ''proj-aaaa1111'' 3
                             (initial_world Map.empty)))
       = [imagesArgs ''proj-aaaa1111'',
          [''rmi'', ''-f'', ''thakur-deploy/proj-aaa:b4''],
          [''rmi'', ''-f'', ''thakur-deploy/proj-aaa:b5'']]"
    unfolding p docker_cmds_removeImages docker_cmds_execDocker
    by (simp add: initial_world_def docker_cmds_def map_filter_simps)
  have e: "printed_earlier ''2024-01-01 10:00:00 +0530 IST'' ''2024-04-01 10:00:00 +0530 IST''"
    by (simp add: printed_earlier_def)
  show ?thesis
    using l c e x by (simp add: d)
qed

theorem prune_keeps_listing_order_unread_dates_witness:
  "docker_cmds (trace (pruneProjectImages unread_dates_env ''proj-aaaa1111'' 3
                         (initial_world Map.empty))) ! 1
     = [''rmi'', ''-f'', ''thakur-deploy/proj-aaa:b4'']
   \<and> length (docker_cmds (trace (pruneProjectImages unread_dates_env ''proj-aaaa1111'' 3
                                     (initial_world Map.empty)))) = 3"
  using prune_keeps_listing_order_unread_dates by simp

end
